theory Spec2Isabelle
  imports Main
begin

section \<open>Characters and exceptions\<close>

definition LF :: char where "LF = CHR 0x0A"
definition CR :: char where "CR = CHR 0x0D"
definition TAB :: char where "TAB = CHR 0x09"

text \<open>The dialect of \<^verbatim>\<open>CSVObjectStorage.csv_format\<close>: \<^verbatim>\<open>{'delimiter': ' ', 'quotechar': '"'}\<close>.\<close>

definition delimiter :: char where "delimiter = CHR 0x20"
definition quotechar :: char where "quotechar = CHR 0x22"

text \<open>
  The exceptions that can leave a function of \<^verbatim>\<open>webmark.py\<close>. \<open>ApplicationError\<close> and
  \<open>ArgumentsError\<close> are the two classes the module defines (the spec's DuplicateCodeError
  and UnknownCodeError are both \<open>ApplicationError\<close> in the code, told apart by their
  message); \<open>TypeError\<close>, \<open>IndexError\<close> and \<open>KeyError\<close> come from building a \<open>Bookmark\<close>
  from a wrong number of fields, from \<^verbatim>\<open>command_args[0]\<close> and from
  \<^verbatim>\<open>self.bookmarks[code]\<close>; \<open>csv_Error\<close> is \<^verbatim>\<open>_csv.Error\<close>;
  \<open>SystemExit n\<close> is how \<^verbatim>\<open>argparse\<close> leaves on a usage error.
\<close>

datatype exn =
    ApplicationError string
  | ArgumentsError string
  | TypeError
  | IndexError
  | KeyError
  | csv_Error
  | SystemExit nat

section \<open>Bookmark\<close>

record Bookmark =
  code :: string
  url :: string
  description :: string

text \<open>\<^verbatim>\<open>'[{0.code}] {0.url} - {0.description}'.format(self)\<close>\<close>

definition Bookmark_str :: "Bookmark \<Rightarrow> string" where
  "Bookmark_str b = ''['' @ code b @ ''] '' @ url b @ '' - '' @ description b"

text \<open>\<^verbatim>\<open>Bookmark._make(row)\<close>: a namedtuple of exactly three fields, \<open>TypeError\<close> otherwise.\<close>

definition Bookmark_make :: "string list \<Rightarrow> exn + Bookmark" where
  "Bookmark_make row =
     (case row of
        [c, u, d] \<Rightarrow> Inr \<lparr>code = c, url = u, description = d\<rparr>
      | _ \<Rightarrow> Inl TypeError)"

text \<open>Iterating a \<open>Bookmark\<close> (what \<^verbatim>\<open>writer.writerow\<close> does with it) gives its three fields.\<close>

definition Bookmark_iter :: "Bookmark \<Rightarrow> string list" where
  "Bookmark_iter b = [code b, url b, description b]"

section \<open>OrderedDict\<close>

text \<open>
  \<^verbatim>\<open>collections.OrderedDict\<close> with string keys, as the list of its items in iteration
  order. Assigning to a key that is present replaces the value where the key stands;
  a new key goes to the end.
\<close>

type_synonym 'v OrderedDict = "(string \<times> 'v) list"

definition od_keys :: "'v OrderedDict \<Rightarrow> string list" where
  "od_keys d = map fst d"

definition od_values :: "'v OrderedDict \<Rightarrow> 'v list" where
  "od_values d = map snd d"

definition od_contains :: "string \<Rightarrow> 'v OrderedDict \<Rightarrow> bool" where
  "od_contains k d = (k \<in> set (od_keys d))"

definition od_get :: "'v OrderedDict \<Rightarrow> string \<Rightarrow> 'v option" where
  "od_get d k = map_of d k"

fun od_setitem :: "string \<Rightarrow> 'v \<Rightarrow> 'v OrderedDict \<Rightarrow> 'v OrderedDict" where
  "od_setitem k v [] = [(k, v)]"
| "od_setitem k v ((k', v') # d) =
     (if k' = k then (k', v) # d else (k', v') # od_setitem k v d)"

text \<open>\<^verbatim>\<open>d.pop(k, None)\<close>: the value removed (or \<open>None\<close>) and the dictionary left.\<close>

fun od_pop :: "string \<Rightarrow> 'v OrderedDict \<Rightarrow> 'v option \<times> 'v OrderedDict" where
  "od_pop k [] = (None, [])"
| "od_pop k ((k', v') # d) =
     (if k' = k then (Some v', d)
      else (case od_pop k d of (r, d') \<Rightarrow> (r, (k', v') # d')))"

text \<open>\<^verbatim>\<open>OrderedDict(pairs)\<close>: the pairs are assigned one after the other.\<close>

definition OrderedDict :: "(string \<times> 'v) list \<Rightarrow> 'v OrderedDict" where
  "OrderedDict pairs = foldl (\<lambda>d (k, v). od_setitem k v d) [] pairs"

section \<open>The csv writer\<close>

text \<open>
  \<^verbatim>\<open>csv.writer(f, delimiter=' ', quotechar='"')\<close> of the Python standard library, with
  the defaults the source leaves in place: \<^verbatim>\<open>QUOTE_MINIMAL\<close>, \<^verbatim>\<open>doublequote=True\<close>, no
  escape character, line terminator \<^verbatim>\<open>'\r\n'\<close>. A field is quoted when it holds the
  delimiter, the quote character or a character of the line terminator; a quote inside
  a quoted field is doubled. A record that comes out empty from one empty field is
  written as two quote characters.
\<close>

definition lineterminator :: string where
  "lineterminator = [CR, LF]"

definition needs_quotes :: "string \<Rightarrow> bool" where
  "needs_quotes f =
     list_ex (\<lambda>c. c = delimiter \<or> c = quotechar \<or> c \<in> set lineterminator) f"

definition double_quotes :: "string \<Rightarrow> string" where
  "double_quotes f = concat (map (\<lambda>c. if c = quotechar then [quotechar, quotechar] else [c]) f)"

definition join_append :: "string \<Rightarrow> string" where
  "join_append f =
     (if needs_quotes f then [quotechar] @ double_quotes f @ [quotechar] else f)"

fun join_fields :: "string list \<Rightarrow> string" where
  "join_fields [] = []"
| "join_fields [f] = join_append f"
| "join_fields (f # g # fs) = join_append f @ [delimiter] @ join_fields (g # fs)"

definition writerow :: "string list \<Rightarrow> string" where
  "writerow row =
     (let rec = join_fields row
      in (if row \<noteq> [] \<and> rec = [] then [quotechar, quotechar] else rec) @ lineterminator)"

section \<open>Text files\<close>

text \<open>
  The file is opened in text mode with the default \<^verbatim>\<open>newline=None\<close>. On a POSIX host
  (the tool keeps its file at \<^verbatim>\<open>~/.webmark\<close>) writing leaves the characters as they are
  (\<^verbatim>\<open>'\n'\<close> becomes \<^verbatim>\<open>os.linesep\<close>, which is \<^verbatim>\<open>'\n'\<close>); reading turns \<^verbatim>\<open>'\r\n'\<close> and a lone
  \<^verbatim>\<open>'\r'\<close> into \<^verbatim>\<open>'\n'\<close>, and iterating the file gives its lines, each with its
  \<^verbatim>\<open>'\n'\<close> when it has one.
\<close>

fun universal_newlines :: "string \<Rightarrow> string" where
  "universal_newlines [] = []"
| "universal_newlines [c] = (if c = CR then [LF] else [c])"
| "universal_newlines (c # d # s) =
     (if c = CR \<and> d = LF then LF # universal_newlines s
      else if c = CR then LF # universal_newlines (d # s)
      else c # universal_newlines (d # s))"

fun readlines :: "string \<Rightarrow> string list" where
  "readlines [] = []"
| "readlines (c # s) =
     (if c = LF then [c] # readlines s
      else (case readlines s of
              [] \<Rightarrow> [[c]]
            | l # ls \<Rightarrow> (c # l) # ls))"

section \<open>The csv reader\<close>

text \<open>
  \<^verbatim>\<open>csv.reader(f, delimiter=' ', quotechar='"')\<close>: the state machine of the standard
  library's reader for this dialect (\<^verbatim>\<open>doublequote\<close>, not \<^verbatim>\<open>strict\<close>, no escape
  character, no \<^verbatim>\<open>skipinitialspace\<close>), so without the two escape states. The reader
  is fed the characters of one line and then an end-of-line mark (\<open>None\<close> here); a
  record is complete when the machine is back in \<open>START_RECORD\<close>. A field may hold at
  most \<^verbatim>\<open>csv.field_size_limit()\<close> characters, 131072 unless changed, which the source
  does not do.
\<close>

datatype parser_state =
    START_RECORD
  | START_FIELD
  | IN_FIELD
  | IN_QUOTED_FIELD
  | QUOTE_IN_QUOTED_FIELD
  | EAT_CRNL

record reader =
  rd_state :: parser_state
  rd_fields :: "string list"
  rd_field :: string

definition field_limit :: nat where
  "field_limit = 131072"

definition parse_reset :: reader where
  "parse_reset = \<lparr>rd_state = START_RECORD, rd_fields = [], rd_field = []\<rparr>"

definition parse_save_field :: "reader \<Rightarrow> reader" where
  "parse_save_field r = r\<lparr>rd_fields := rd_fields r @ [rd_field r], rd_field := []\<rparr>"

definition parse_add_char :: "reader \<Rightarrow> char \<Rightarrow> exn + reader" where
  "parse_add_char r c =
     (if length (rd_field r) \<ge> field_limit then Inl csv_Error
      else Inr (r\<lparr>rd_field := rd_field r @ [c]\<rparr>))"

definition set_state :: "parser_state \<Rightarrow> reader \<Rightarrow> reader" where
  "set_state s r = r\<lparr>rd_state := s\<rparr>"

text \<open>The case \<open>START_FIELD\<close>, which \<open>START_RECORD\<close> falls through to.\<close>

definition start_field :: "reader \<Rightarrow> char option \<Rightarrow> exn + reader" where
  "start_field r c =
     (case c of
        None \<Rightarrow> Inr (set_state START_RECORD (parse_save_field r))
      | Some ch \<Rightarrow>
          if ch = LF \<or> ch = CR then Inr (set_state EAT_CRNL (parse_save_field r))
          else if ch = quotechar then Inr (set_state IN_QUOTED_FIELD r)
          else if ch = delimiter then Inr (parse_save_field r)
          else (case parse_add_char r ch of
                  Inl e \<Rightarrow> Inl e
                | Inr r' \<Rightarrow> Inr (set_state IN_FIELD r')))"

definition parse_process_char :: "reader \<Rightarrow> char option \<Rightarrow> exn + reader" where
  "parse_process_char r c =
     (case rd_state r of
        START_RECORD \<Rightarrow>
          (case c of
             None \<Rightarrow> Inr r
           | Some ch \<Rightarrow>
               if ch = LF \<or> ch = CR then Inr (set_state EAT_CRNL r)
               else start_field (set_state START_FIELD r) c)
      | START_FIELD \<Rightarrow> start_field r c
      | IN_FIELD \<Rightarrow>
          (case c of
             None \<Rightarrow> Inr (set_state START_RECORD (parse_save_field r))
           | Some ch \<Rightarrow>
               if ch = LF \<or> ch = CR then Inr (set_state EAT_CRNL (parse_save_field r))
               else if ch = delimiter then Inr (set_state START_FIELD (parse_save_field r))
               else parse_add_char r ch)
      | IN_QUOTED_FIELD \<Rightarrow>
          (case c of
             None \<Rightarrow> Inr r
           | Some ch \<Rightarrow>
               if ch = quotechar then Inr (set_state QUOTE_IN_QUOTED_FIELD r)
               else parse_add_char r ch)
      | QUOTE_IN_QUOTED_FIELD \<Rightarrow>
          (case c of
             None \<Rightarrow> Inr (set_state START_RECORD (parse_save_field r))
           | Some ch \<Rightarrow>
               if ch = quotechar then
                 (case parse_add_char r ch of
                    Inl e \<Rightarrow> Inl e
                  | Inr r' \<Rightarrow> Inr (set_state IN_QUOTED_FIELD r'))
               else if ch = delimiter then Inr (set_state START_FIELD (parse_save_field r))
               else if ch = LF \<or> ch = CR then Inr (set_state EAT_CRNL (parse_save_field r))
               else (case parse_add_char r ch of
                       Inl e \<Rightarrow> Inl e
                     | Inr r' \<Rightarrow> Inr (set_state IN_FIELD r')))
      | EAT_CRNL \<Rightarrow>
          (case c of
             None \<Rightarrow> Inr (set_state START_RECORD r)
           | Some ch \<Rightarrow> if ch = LF \<or> ch = CR then Inr r else Inl csv_Error))"

text \<open>The characters of a line, one after the other, until one raises.\<close>

fun parse_chars :: "reader \<Rightarrow> string \<Rightarrow> exn + reader" where
  "parse_chars r [] = Inr r"
| "parse_chars r (c # s) =
     (case parse_process_char r (Some c) of
        Inl e \<Rightarrow> Inl e
      | Inr r' \<Rightarrow> parse_chars r' s)"

definition parse_line :: "reader \<Rightarrow> string \<Rightarrow> exn + reader" where
  "parse_line r line =
     (case parse_chars r line of
        Inl e \<Rightarrow> Inl e
      | Inr r' \<Rightarrow> parse_process_char r' None)"

text \<open>
  An iterator that is run to its end: the items it yielded, in order, and how it ended,
  \<open>None\<close> for a normal end and \<open>Some e\<close> for the exception \<open>e\<close> raised after the last
  item. A consumer that stops at an item never sees what comes after it.
\<close>

type_synonym 'a iterated = "'a list \<times> exn option"

text \<open>What a consumer of the whole iterator gets: all items, or the exception.\<close>

fun consumed :: "'a iterated \<Rightarrow> exn + 'a list" where
  "consumed (xs, None) = Inr xs"
| "consumed (xs, Some e) = Inl e"

text \<open>
  Iterating the reader: lines are consumed until a record is complete; the next record
  starts from \<open>parse_reset\<close>. When the lines run out inside a record (a quoted field left
  open), what was read so far is the last record. The first argument is the parser as
  the lines before left it.
\<close>

fun reader_iter :: "reader \<Rightarrow> string list \<Rightarrow> string list iterated" where
  "reader_iter r [] =
     (if rd_field r \<noteq> [] \<or> rd_state r = IN_QUOTED_FIELD
      then ([rd_fields (parse_save_field r)], None) else ([], None))"
| "reader_iter r (line # rest) =
     (case parse_line r line of
        Inl e \<Rightarrow> ([], Some e)
      | Inr r' \<Rightarrow>
          if rd_state r' = START_RECORD then
            (case reader_iter parse_reset rest of
               (rows, ending) \<Rightarrow> (rd_fields r' # rows, ending))
          else reader_iter r' rest)"

definition reader_rows :: "reader \<Rightarrow> string list \<Rightarrow> exn + string list list" where
  "reader_rows r lines = consumed (reader_iter r lines)"

definition csv_reader_iter :: "string \<Rightarrow> string list iterated" where
  "csv_reader_iter content = reader_iter parse_reset (readlines (universal_newlines content))"

definition csv_reader :: "string \<Rightarrow> exn + string list list" where
  "csv_reader content = reader_rows parse_reset (readlines (universal_newlines content))"

definition csv_writer :: "string list list \<Rightarrow> string" where
  "csv_writer rows = concat (map writerow rows)"

section \<open>The world outside the process\<close>

text \<open>
  What the program can see and change: the regular files by path (a path that is not
  mapped has no regular file), the characters printed to standard output, the URLs
  handed to the browser, and the accesses to the file system in the order they were made.
  Failing input and output (a directory in the way, a full disk, missing rights) is
  outside this model: opening a file succeeds.
\<close>

datatype fs_event = Ev_isfile string | Ev_open_read string | Ev_open_write string

record world =
  files :: "string \<Rightarrow> string option"
  stdout :: string
  browser :: "string list"
  fs_log :: "fs_event list"

definition log_event :: "fs_event \<Rightarrow> world \<Rightarrow> world" where
  "log_event e w = w\<lparr>fs_log := fs_log w @ [e]\<rparr>"

text \<open>\<^verbatim>\<open>print(x)\<close>: the text and a newline.\<close>

definition print :: "string \<Rightarrow> world \<Rightarrow> world" where
  "print s w = w\<lparr>stdout := stdout w @ s @ [LF]\<rparr>"

section \<open>CSVObjectStorage\<close>

record CSVObjectStorage =
  filename :: string

text \<open>
  \<^verbatim>\<open>CSVObjectStorage.load\<close> is a generator: \<open>load_iter\<close> gives the rows it yields and how
  it ends. \<open>load\<close> is the generator consumed whole, as \<^verbatim>\<open>list(storage.load())\<close> would: all
  rows, or the exception that reading raises.
\<close>

definition load_iter :: "CSVObjectStorage \<Rightarrow> world \<Rightarrow> string list iterated \<times> world" where
  "load_iter self w =
     (let w1 = log_event (Ev_isfile (filename self)) w
      in (case files w (filename self) of
            None \<Rightarrow> (([], None), w1)
          | Some content \<Rightarrow>
              (csv_reader_iter content, log_event (Ev_open_read (filename self)) w1)))"

definition load :: "CSVObjectStorage \<Rightarrow> world \<Rightarrow> (exn + string list list) \<times> world" where
  "load self w = (case load_iter self w of (it, w1) \<Rightarrow> (consumed it, w1))"

definition save :: "CSVObjectStorage \<Rightarrow> Bookmark list \<Rightarrow> world \<Rightarrow> world" where
  "save self rows w =
     (let w1 = log_event (Ev_open_write (filename self)) w
      in w1\<lparr>files := (files w1)(filename self \<mapsto> csv_writer (map Bookmark_iter rows))\<rparr>)"

section \<open>Settings\<close>

text \<open>
  The parser of \<^verbatim>\<open>init_from_args\<close> declares a positional \<^verbatim>\<open>command\<close> with
  \<^verbatim>\<open>choices=['list', 'add', 'rm', 'open']\<close>, the positionals left as \<^verbatim>\<open>command_args\<close>, the
  switch \<^verbatim>\<open>-f\<close> and the option \<^verbatim>\<open>--storage-path\<close> with default \<^verbatim>\<open>'~/.webmark'\<close>.
  How \<^verbatim>\<open>argparse\<close> sorts the words of a command line into these four arguments is the
  library's business and is taken as given, by its outcome (\<open>parser_run\<close> below): either
  the parser ends the process while sorting, or it has placed every word, and \<open>argv\<close>
  holds what it placed: the first positional when there is one, the other positionals,
  whether \<^verbatim>\<open>-f\<close> was given, and the value of \<^verbatim>\<open>--storage-path\<close> when it was given.
\<close>

datatype command = Cmd_list | Cmd_add | Cmd_rm | Cmd_open

definition choices :: "string \<Rightarrow> command option" where
  "choices s =
     (if s = ''list'' then Some Cmd_list
      else if s = ''add'' then Some Cmd_add
      else if s = ''rm'' then Some Cmd_rm
      else if s = ''open'' then Some Cmd_open
      else None)"

record argv =
  arg_command :: "string option"
  arg_command_args :: "string list"
  arg_f :: bool
  arg_storage_path :: "string option"

record Settings =
  command :: command
  command_args :: "string list"
  force :: bool
  storage_path :: string

text \<open>
  The run of \<^verbatim>\<open>parser.parse_args\<close> over the words of the command line.
  \<open>Parser_exit n out\<close>: the parser ended the process with status \<open>n\<close> while sorting the
  words, having written \<open>out\<close> to standard output: status 2 after a usage error (an
  option it does not know, \<^verbatim>\<open>--storage-path\<close> without a value, a word it cannot place, as
  in \<^verbatim>\<open>add a -f b\<close> or \<^verbatim>\<open>rm --storage-path /x a\<close>, where the positionals after the option
  are left over), which it reports on standard error, so that \<open>out\<close> is empty; status 0
  for \<^verbatim>\<open>-h\<close>, where \<open>out\<close> is the help. Standard error is not part of the model.
  \<open>Collected a\<close>: the parser placed every word, as \<open>a\<close> says.
\<close>

datatype parser_run = Parser_exit nat string | Collected argv

text \<open>
  What the parser does with the words it placed: a missing command, or one that is not
  among the choices, is a usage error as well, on which it raises \<^verbatim>\<open>SystemExit(2)\<close>;
  otherwise it fills the namespace, with the default for a storage path not given.
\<close>

definition fill_namespace :: "argv \<Rightarrow> exn + Settings" where
  "fill_namespace a =
     (case arg_command a of
        None \<Rightarrow> Inl (SystemExit 2)
      | Some s \<Rightarrow>
          (case choices s of
             None \<Rightarrow> Inl (SystemExit 2)
           | Some c \<Rightarrow>
               Inr \<lparr>command = c,
                     command_args = arg_command_args a,
                     force = arg_f a,
                     storage_path =
                       (case arg_storage_path a of None \<Rightarrow> ''~/.webmark'' | Some p \<Rightarrow> p)\<rparr>))"

definition usage_add :: string where
  "usage_add = ''To add bookmark use following command:'' @ [LF, TAB] @
               ''webmark add {code} {url} {description}''"

definition usage_open :: string where
  "usage_open = ''To open bookmark use following command:'' @ [LF, TAB] @
                ''webmark open {code}''"

definition usage_rm :: string where
  "usage_rm = ''To remove bookmark use following command:'' @ [LF, TAB] @
              ''webmark rm {code}''"

definition init_from_args :: "argv \<Rightarrow> exn + Settings" where
  "init_from_args a =
     (case fill_namespace a of
        Inl e \<Rightarrow> Inl e
      | Inr self \<Rightarrow>
          if command self = Cmd_add \<and> length (command_args self) \<noteq> 3
            then Inl (ArgumentsError usage_add)
          else if command self = Cmd_open \<and> length (command_args self) \<noteq> 1
            then Inl (ArgumentsError usage_open)
          else if command self = Cmd_rm \<and> length (command_args self) \<noteq> 1
            then Inl (ArgumentsError usage_rm)
          else Inr self)"

text \<open>
  The environment of the process: its variables, and the home directories of the
  password database, which \<^verbatim>\<open>os.path.expanduser\<close> asks when \<^verbatim>\<open>HOME\<close> is not set
  (\<open>pw_self\<close>, the entry of the current user) or when the path names a user (\<open>pw_dir\<close>).
\<close>

record env =
  environ :: "string \<Rightarrow> string option"
  pw_self :: "string option"
  pw_dir :: "string \<Rightarrow> string option"

definition init_from_env :: "env \<Rightarrow> Settings \<Rightarrow> Settings" where
  "init_from_env e self =
     self\<lparr>storage_path :=
       (case environ e ''WEBMARK_STORAGE_PATH'' of
          None \<Rightarrow> storage_path self
        | Some v \<Rightarrow> v)\<rparr>"

text \<open>\<^verbatim>\<open>userhome.rstrip('/')\<close>\<close>

definition rstrip_slash :: "string \<Rightarrow> string" where
  "rstrip_slash s = rev (dropWhile (\<lambda>c. c = CHR ''/'') (rev s))"

text \<open>
  \<^verbatim>\<open>os.path.expanduser\<close> of \<^verbatim>\<open>posixpath\<close>: a path that starts with \<^verbatim>\<open>~\<close> has the part up to
  its first \<^verbatim>\<open>/\<close> replaced by a home directory, that of the current user for a bare \<^verbatim>\<open>~\<close>
  and that of the named user otherwise; a path with no known home is left as it is.
\<close>

definition expanduser :: "env \<Rightarrow> string \<Rightarrow> string" where
  "expanduser e path =
     (case path of
        [] \<Rightarrow> path
      | c # cs \<Rightarrow>
          if c \<noteq> CHR ''~'' then path
          else
            (let name = takeWhile (\<lambda>x. x \<noteq> CHR ''/'') cs;
                 rest = dropWhile (\<lambda>x. x \<noteq> CHR ''/'') cs;
                 userhome =
                   (if name = [] then
                      (case environ e ''HOME'' of
                         None \<Rightarrow> pw_self e
                       | Some h \<Rightarrow> Some h)
                    else pw_dir e name)
             in (case userhome of
                   None \<Rightarrow> path
                 | Some h \<Rightarrow>
                     (let p = rstrip_slash h @ rest in if p = [] then ''/'' else p))))"

definition Settings_init :: "env \<Rightarrow> argv \<Rightarrow> exn + Settings" where
  "Settings_init e a =
     (case init_from_args a of
        Inl x \<Rightarrow> Inl x
      | Inr self \<Rightarrow>
          (let self1 = init_from_env e self
           in Inr (self1\<lparr>storage_path := expanduser e (storage_path self1)\<rparr>)))"

section \<open>BookmarksApp\<close>

record BookmarksApp =
  settings :: Settings
  storage :: CSVObjectStorage
  bookmarks :: "Bookmark OrderedDict"

text \<open>\<^verbatim>\<open>map(Bookmark._make, rows)\<close>, consumed to its end or to the first exception.\<close>

fun make_all :: "string list list \<Rightarrow> exn + Bookmark list" where
  "make_all [] = Inr []"
| "make_all (row # rows) =
     (case Bookmark_make row of
        Inl e \<Rightarrow> Inl e
      | Inr b \<Rightarrow>
          (case make_all rows of
             Inl e \<Rightarrow> Inl e
           | Inr bs \<Rightarrow> Inr (b # bs)))"

text \<open>
  \<^verbatim>\<open>OrderedDict((x.code, x) for x in map(Bookmark._make, self.storage.load()))\<close>: each
  row is made into a \<open>Bookmark\<close> as the generator yields it. A row with a wrong number
  of fields therefore raises its \<open>TypeError\<close> before the reader gets to the lines after it,
  and an exception of the reader is met only when all the rows before it were made.
\<close>

definition BookmarksApp_init :: "Settings \<Rightarrow> world \<Rightarrow> (exn + BookmarksApp) \<times> world" where
  "BookmarksApp_init s w =
     (let st = \<lparr>filename = storage_path s\<rparr>
      in (case load_iter st w of
            ((rows, ending), w1) \<Rightarrow>
              (case make_all rows of
                 Inl e \<Rightarrow> (Inl e, w1)
               | Inr bs \<Rightarrow>
                   (case ending of
                      Some e \<Rightarrow> (Inl e, w1)
                    | None \<Rightarrow>
                        (Inr \<lparr>settings = s, storage = st,
                              bookmarks = OrderedDict (map (\<lambda>x. (code x, x)) bs)\<rparr>, w1)))))"

text \<open>
  A command takes the application and the world and gives back the exception it
  raised, if any, with the application and the world as it left them.
\<close>

type_synonym result = "exn option \<times> BookmarksApp \<times> world"

definition empty_message :: string where
  "empty_message = [TAB] @ ''It'' @ [CHR 0x27] @ ''s empty here!  :(  ''"

definition list_cmd :: "BookmarksApp \<Rightarrow> world \<Rightarrow> result" where
  "list_cmd self w =
     (let w1 = (if bookmarks self = [] then print empty_message w else w)
      in (None, self, fold (\<lambda>bookmark. print (Bookmark_str bookmark)) (od_values (bookmarks self)) w1))"

definition duplicate_message :: "Bookmark \<Rightarrow> string" where
  "duplicate_message b =
     ''There is a bookmark with that code:'' @ [LF] @ Bookmark_str b @ [LF, LF] @
     ''To override it add option -f''"

definition add_cmd :: "BookmarksApp \<Rightarrow> world \<Rightarrow> result" where
  "add_cmd self w =
     (case Bookmark_make (command_args (settings self)) of
        Inl e \<Rightarrow> (Some e, self, w)
      | Inr bookmark \<Rightarrow>
          if \<not> force (settings self) \<and> od_contains (code bookmark) (bookmarks self) then
            (case od_get (bookmarks self) (code bookmark) of
               None \<Rightarrow> (Some KeyError, self, w)
             | Some old \<Rightarrow> (Some (ApplicationError (duplicate_message old)), self, w))
          else
            (let self1 = self\<lparr>bookmarks := od_setitem (code bookmark) bookmark (bookmarks self)\<rparr>
             in (None, self1, save (storage self1) (od_values (bookmarks self1)) w)))"

definition unknown_message :: "string \<Rightarrow> string" where
  "unknown_message c = ''There is no bookmark with code '' @ c"

definition rm_cmd :: "BookmarksApp \<Rightarrow> world \<Rightarrow> result" where
  "rm_cmd self w =
     (case command_args (settings self) of
        [] \<Rightarrow> (Some IndexError, self, w)
      | c # _ \<Rightarrow>
          (case od_pop c (bookmarks self) of
             (bookmark, d) \<Rightarrow>
               (let self1 = self\<lparr>bookmarks := d\<rparr>
                in (case bookmark of
                      None \<Rightarrow> (Some (ApplicationError (unknown_message c)), self1, w)
                    | Some _ \<Rightarrow>
                        (None, self1, save (storage self1) (od_values (bookmarks self1)) w)))))"

definition open_cmd :: "BookmarksApp \<Rightarrow> world \<Rightarrow> result" where
  "open_cmd self w =
     (case command_args (settings self) of
        [] \<Rightarrow> (Some IndexError, self, w)
      | c # _ \<Rightarrow>
          (case od_get (bookmarks self) c of
             None \<Rightarrow> (Some (ApplicationError (unknown_message c)), self, w)
           | Some bookmark \<Rightarrow> (None, self, w\<lparr>browser := browser w @ [url bookmark]\<rparr>)))"

definition run :: "BookmarksApp \<Rightarrow> world \<Rightarrow> result" where
  "run self w =
     (case command (settings self) of
        Cmd_list \<Rightarrow> list_cmd self w
      | Cmd_add \<Rightarrow> add_cmd self w
      | Cmd_rm \<Rightarrow> rm_cmd self w
      | Cmd_open \<Rightarrow> open_cmd self w)"

section \<open>The script\<close>

text \<open>
  How the process ends: with an exit status, or with an exception nobody caught, for
  which Python prints a traceback and exits with status 1.
\<close>

datatype ending = Exit nat | Traceback exn

fun exit_status :: "ending \<Rightarrow> nat" where
  "exit_status (Exit n) = n"
| "exit_status (Traceback _) = 1"

text \<open>
  \<^verbatim>\<open>except (ApplicationError, ArgumentsError) as e: print(e); sys.exit(1)\<close>. A
  \<open>SystemExit\<close> passes through and ends the process with its status.
\<close>

fun handle :: "exn \<Rightarrow> world \<Rightarrow> ending \<times> world" where
  "handle (ApplicationError m) w = (Exit 1, print m w)"
| "handle (ArgumentsError m) w = (Exit 1, print m w)"
| "handle (SystemExit n) w = (Exit n, w)"
| "handle e w = (Traceback e, w)"

text \<open>
  The script, for a run of the argument parser: when the parser ends the process inside
  \<^verbatim>\<open>Settings()\<close>, its \<open>SystemExit\<close> is what leaves the \<^verbatim>\<open>try\<close> block.
\<close>

definition main :: "env \<Rightarrow> parser_run \<Rightarrow> world \<Rightarrow> ending \<times> world" where
  "main e p w =
     (case p of
        Parser_exit n out \<Rightarrow> handle (SystemExit n) (w\<lparr>stdout := stdout w @ out\<rparr>)
      | Collected a \<Rightarrow>
          (case Settings_init e a of
             Inl x \<Rightarrow> handle x w
           | Inr s \<Rightarrow>
               (case BookmarksApp_init s w of
                  (Inl x, w1) \<Rightarrow> handle x w1
                | (Inr app, w1) \<Rightarrow>
                    (case run app w1 of
                       (Some x, _, w2) \<Rightarrow> handle x w2
                     | (None, _, w2) \<Rightarrow> (Exit 0, w2)))))"

section \<open>Notions of the statements and proofs\<close>

text \<open>
  The invariant of \<^verbatim>\<open>self.bookmarks\<close>: no key stands twice, and every key is the code of
  the bookmark stored under it.
\<close>

definition collection_inv :: "Bookmark OrderedDict \<Rightarrow> bool" where
  "collection_inv d = (distinct (od_keys d) \<and> list_all (\<lambda>(k, b). code b = k) d)"

text \<open>The elements of a list in the order in which each one first occurs.\<close>

definition first_seen :: "'a list \<Rightarrow> 'a list" where
  "first_seen xs = rev (remdups (rev xs))"

text \<open>A field that the storage keeps on one line: no carriage return, no line feed.\<close>

definition one_line :: "string \<Rightarrow> bool" where
  "one_line f = list_all (\<lambda>c. c \<noteq> CR \<and> c \<noteq> LF) f"

text \<open>
  The state in which the reader is after a field that ended with the given character, a
  delimiter or a line feed.
\<close>

definition after_sep :: "char \<Rightarrow> parser_state" where
  "after_sep c = (if c = delimiter then START_FIELD else EAT_CRNL)"

text \<open>
  The text of a record as \<^verbatim>\<open>writerow\<close> writes it, without the line terminator.
\<close>

definition record_text :: "string list \<Rightarrow> string" where
  "record_text row =
     (if row \<noteq> [] \<and> join_fields row = [] then [quotechar, quotechar] else join_fields row)"


section \<open>Lemmas about the generators\<close>

lemma reader_rows_Nil [simp]:
  "reader_rows r [] =
     (if rd_field r \<noteq> [] \<or> rd_state r = IN_QUOTED_FIELD
      then Inr [rd_fields (parse_save_field r)] else Inr [])"
  by (simp add: reader_rows_def)

lemma reader_rows_Cons [simp]:
  "reader_rows r (line # rest) =
     (case parse_line r line of
        Inl e \<Rightarrow> Inl e
      | Inr r' \<Rightarrow>
          if rd_state r' = START_RECORD then
            (case reader_rows parse_reset rest of
               Inl e \<Rightarrow> Inl e
             | Inr rows \<Rightarrow> Inr (rd_fields r' # rows))
          else reader_rows r' rest)"
proof (cases "parse_line r line")
  case (Inl e)
  then show ?thesis by (simp add: reader_rows_def)
next
  case (Inr r')
  obtain rows ending where it: "reader_iter parse_reset rest = (rows, ending)"
    by (cases "reader_iter parse_reset rest")
  with Inr show ?thesis
    by (cases ending) (simp_all add: reader_rows_def)
qed

lemma csv_reader_consumed: "csv_reader content = consumed (csv_reader_iter content)"
  by (simp add: csv_reader_def csv_reader_iter_def reader_rows_def)

lemma load_eq:
  "load self w =
     (let w1 = log_event (Ev_isfile (filename self)) w
      in (case files w (filename self) of
            None \<Rightarrow> (Inr [], w1)
          | Some content \<Rightarrow>
              (csv_reader content, log_event (Ev_open_read (filename self)) w1)))"
  by (simp add: load_def load_iter_def csv_reader_consumed Let_def split: option.splits)

lemma consumed_Inr: "consumed it = Inr rows \<longleftrightarrow> it = (rows, None)"
  by (cases it; cases "snd it") auto

lemma load_Inr:
  "load self w = (Inr rows, w1) \<longleftrightarrow> load_iter self w = ((rows, None), w1)"
  by (cases "load_iter self w") (auto simp: load_def consumed_Inr)

text \<open>
  Constructing the application from what the whole generator gives: when reading ends
  normally, the rows are made into bookmarks; a row that cannot be made raises first.
\<close>

lemma BookmarksApp_init_loaded:
  assumes "load \<lparr>filename = storage_path s\<rparr> w = (Inr rows, w1)"
  shows "BookmarksApp_init s w =
     (case make_all rows of
        Inl e \<Rightarrow> (Inl e, w1)
      | Inr bs \<Rightarrow>
          (Inr \<lparr>settings = s, storage = \<lparr>filename = storage_path s\<rparr>,
                bookmarks = OrderedDict (map (\<lambda>x. (code x, x)) bs)\<rparr>, w1))"
  using assms by (simp add: load_Inr BookmarksApp_init_def Let_def split: sum.splits)

section \<open>Lemmas about the ordered dictionary\<close>

lemma od_keys_setitem:
  "od_keys (od_setitem k v d) = (if k \<in> set (od_keys d) then od_keys d else od_keys d @ [k])"
  by (induction d) (force simp: od_keys_def)+

lemma od_get_setitem:
  "od_get (od_setitem k v d) k' = (if k' = k then Some v else od_get d k')"
  by (induction d) (auto simp: od_get_def)

lemma od_get_contains:
  "od_contains k d \<longleftrightarrow> od_get d k \<noteq> None"
  by (simp add: od_contains_def od_get_def od_keys_def map_of_eq_None_iff)

lemma od_pop_absent:
  "\<not> od_contains k d \<Longrightarrow> od_pop k d = (None, d)"
  by (induction d) (auto simp: od_contains_def od_keys_def)

lemma od_pop_present:
  "distinct (od_keys d) \<Longrightarrow> od_contains k d \<Longrightarrow>
   od_pop k d = (od_get d k, filter (\<lambda>kv. fst kv \<noteq> k) d)"
proof (induction d)
  case Nil
  then show ?case by (simp add: od_contains_def od_keys_def)
next
  case (Cons a d)
  obtain k' v' where a: "a = (k', v')" by (cases a)
  show ?case
  proof (cases "k' = k")
    case True
    with Cons.prems a have "k \<notin> fst ` set d" by (simp add: od_keys_def)
    then have "filter (\<lambda>kv. fst kv \<noteq> k) d = d"
      by (intro filter_True) auto
    with True a show ?thesis by (simp add: od_get_def)
  next
    case False
    with Cons a show ?thesis
      by (simp add: od_contains_def od_keys_def od_get_def)
  qed
qed

lemma OrderedDict_snoc:
  "OrderedDict (ps @ [(k, v)]) = od_setitem k v (OrderedDict ps)"
  by (simp add: OrderedDict_def)

lemma od_keys_OrderedDict:
  "od_keys (OrderedDict ps) = first_seen (map fst ps)"
proof (induction ps rule: rev_induct)
  case Nil
  show ?case by (simp add: OrderedDict_def od_keys_def first_seen_def)
next
  case (snoc p ps)
  obtain k v where p: "p = (k, v)" by (cases p)
  have "set (first_seen (map fst ps)) = fst ` set ps"
    by (simp add: first_seen_def)
  with snoc p show ?case
    by (simp add: OrderedDict_snoc od_keys_setitem) (simp add: first_seen_def)
qed

lemma od_get_OrderedDict:
  "od_get (OrderedDict ps) k = map_option snd (find (\<lambda>p. fst p = k) (rev ps))"
proof (induction ps rule: rev_induct)
  case Nil
  show ?case by (simp add: OrderedDict_def od_get_def)
next
  case (snoc p ps)
  obtain k' v where p: "p = (k', v)" by (cases p)
  with snoc show ?case
    by (auto simp: OrderedDict_snoc od_get_setitem)
qed

lemma distinct_first_seen: "distinct (first_seen xs)"
  by (simp add: first_seen_def)

lemma od_setitem_present:
  "distinct (od_keys d) \<Longrightarrow> od_contains k d \<Longrightarrow>
   od_setitem k v d = map (\<lambda>kv. if fst kv = k then (k, v) else kv) d"
proof (induction d)
  case Nil
  then show ?case by (simp add: od_contains_def od_keys_def)
next
  case (Cons a d)
  obtain k' v' where a: "a = (k', v')" by (cases a)
  show ?case
  proof (cases "k' = k")
    case True
    with Cons.prems a have "k \<notin> fst ` set d" by (simp add: od_keys_def)
    then have "map (\<lambda>kv. if fst kv = k then (k, v) else kv) d = d"
      by (intro map_idI) auto
    with True a show ?thesis by simp
  next
    case False
    with Cons a show ?thesis
      by (simp add: od_contains_def od_keys_def)
  qed
qed

lemma od_setitem_absent:
  "\<not> od_contains k d \<Longrightarrow> od_setitem k v d = d @ [(k, v)]"
  by (induction d) (auto simp: od_contains_def od_keys_def)

lemma od_setitem_twice: "od_setitem k v (od_setitem k v d) = od_setitem k v d"
  by (induction d) auto

lemma distinct_setitem:
  "distinct (od_keys d) \<Longrightarrow> distinct (od_keys (od_setitem k v d))"
  by (simp add: od_keys_setitem)

lemma count_distinct:
  "distinct xs \<Longrightarrow> x \<in> set xs \<Longrightarrow> length (filter (\<lambda>k. k = x) xs) = 1"
  by (induction xs) (auto simp: filter_empty_conv)

lemma set_od_pop: "set (snd (od_pop k d)) \<subseteq> set d"
proof (induction d)
  case Nil
  show ?case by simp
next
  case (Cons a d)
  obtain k' v' where a: "a = (k', v')" by (cases a)
  obtain r d' where pop: "od_pop k d = (r, d')" by (cases "od_pop k d")
  with Cons a show ?case by auto
qed

lemma keys_od_pop: "distinct (od_keys d) \<Longrightarrow> distinct (od_keys (snd (od_pop k d)))"
proof (induction d)
  case Nil
  then show ?case by (simp add: od_keys_def)
next
  case (Cons a d)
  obtain k' v' where a: "a = (k', v')" by (cases a)
  obtain r d' where pop: "od_pop k d = (r, d')" by (cases "od_pop k d")
  have sub: "set d' \<subseteq> set d"
    using set_od_pop [of k d] pop by simp
  show ?case
  proof (cases "k' = k")
    case True
    with Cons.prems a show ?thesis by (simp add: od_keys_def)
  next
    case False
    from Cons.prems a have "k' \<notin> fst ` set d" by (simp add: od_keys_def)
    with sub have "k' \<notin> fst ` set d'" by blast
    moreover from Cons pop have "distinct (map fst d')" by (simp add: od_keys_def)
    ultimately show ?thesis
      using False a pop by (simp add: od_keys_def)
  qed
qed

lemma find_mapped:
  "find P (map f xs) = map_option f (find (\<lambda>x. P (f x)) xs)"
  by (induction xs) auto

section \<open>Lemmas about the commands\<close>

lemma save_files:
  "files (save st rows w) = (files w)(filename st \<mapsto> csv_writer (map Bookmark_iter rows))"
  by (simp add: save_def log_event_def Let_def)

lemma fold_print:
  "fold (\<lambda>b. print (f b)) bs w = w\<lparr>stdout := stdout w @ concat (map (\<lambda>b. f b @ [LF]) bs)\<rparr>"
  by (induction bs arbitrary: w) (simp_all add: print_def)

lemma add_cmd_force:
  assumes "command_args (settings self) = [c, u, d]" and "force (settings self)"
  shows "add_cmd self w =
     (let self1 = self\<lparr>bookmarks :=
            od_setitem c \<lparr>code = c, url = u, description = d\<rparr> (bookmarks self)\<rparr>
      in (None, self1, save (storage self) (od_values (bookmarks self1)) w))"
  using assms by (simp add: add_cmd_def Bookmark_make_def Let_def)

lemma inv_setitem:
  "collection_inv d \<Longrightarrow> code b = k \<Longrightarrow> collection_inv (od_setitem k b d)"
  unfolding collection_inv_def
proof (intro conjI)
  assume "distinct (od_keys d) \<and> list_all (\<lambda>(k, b). code b = k) d" "code b = k"
  then show "distinct (od_keys (od_setitem k b d))" by (simp add: distinct_setitem)
next
  assume "distinct (od_keys d) \<and> list_all (\<lambda>(k, b). code b = k) d" "code b = k"
  then have "list_all (\<lambda>(k, b). code b = k) d" "code b = k" by simp_all
  then show "list_all (\<lambda>(k, b). code b = k) (od_setitem k b d)"
    by (induction d) auto
qed

lemma inv_pop: "collection_inv d \<Longrightarrow> od_pop k d = (r, d') \<Longrightarrow> collection_inv d'"
  using set_od_pop [of k d] keys_od_pop [of d k]
  by (auto simp: collection_inv_def list_all_iff)

lemma inv_OrderedDict:
  "list_all (\<lambda>(k, b). code b = k) ps \<Longrightarrow> collection_inv (OrderedDict ps)"
proof (induction ps rule: rev_induct)
  case Nil
  show ?case by (simp add: OrderedDict_def collection_inv_def od_keys_def)
next
  case (snoc p ps)
  obtain k b where p: "p = (k, b)" by (cases p)
  with snoc show ?case
    by (simp add: OrderedDict_snoc inv_setitem)
qed

lemma init_inv:
  "BookmarksApp_init s w = (Inr app, w1) \<Longrightarrow> collection_inv (bookmarks app)"
  by (auto simp: BookmarksApp_init_def Let_def list_all_iff intro!: inv_OrderedDict
      split: prod.splits sum.splits option.splits)

lemma add_inv:
  "collection_inv (bookmarks self) \<Longrightarrow> collection_inv (bookmarks (fst (snd (add_cmd self w))))"
  by (auto simp: add_cmd_def Bookmark_make_def Let_def inv_setitem
      split: sum.splits option.splits list.splits)

lemma rm_inv:
  "collection_inv (bookmarks self) \<Longrightarrow> collection_inv (bookmarks (fst (snd (rm_cmd self w))))"
  by (auto simp: rm_cmd_def Let_def split: list.splits prod.splits option.splits
      dest: inv_pop)

lemma list_inv: "bookmarks (fst (snd (list_cmd self w))) = bookmarks self"
  by (simp add: list_cmd_def Let_def)

lemma open_inv: "bookmarks (fst (snd (open_cmd self w))) = bookmarks self"
  by (simp add: open_cmd_def split: list.splits option.splits)

lemma make_all_rows:
  "list_all (\<lambda>row. length row = 3) rows \<Longrightarrow>
   make_all rows = Inr (map (\<lambda>row. \<lparr>code = row ! 0, url = row ! 1, description = row ! 2\<rparr>) rows)"
proof (induction rows)
  case Nil
  show ?case by simp
next
  case (Cons row rows)
  from Cons.prems obtain c u d where "row = [c, u, d]"
    by (cases row; cases "tl row"; cases "tl (tl row)") auto
  with Cons show ?case by (simp add: Bookmark_make_def)
qed

text \<open>The definitions that evaluating the reader on a given text unfolds.\<close>

lemmas csv_eval =
  csv_reader_def parse_line_def parse_process_char_def start_field_def parse_add_char_def
  parse_save_field_def set_state_def parse_reset_def field_limit_def
  delimiter_def quotechar_def CR_def LF_def


section \<open>Lemmas about the csv reader and writer\<close>

lemma needs_quotes_iff:
  "needs_quotes f \<longleftrightarrow> (\<exists>c\<in>set f. c = delimiter \<or> c = quotechar \<or> c = CR \<or> c = LF)"
  by (auto simp: needs_quotes_def lineterminator_def list_ex_iff)

lemma one_line_iff: "one_line f \<longleftrightarrow> (\<forall>c\<in>set f. c \<noteq> CR \<and> c \<noteq> LF)"
  by (simp add: one_line_def list_all_iff)

lemma special_chars_distinct:
  "delimiter \<noteq> quotechar" "delimiter \<noteq> CR" "delimiter \<noteq> LF"
  "quotechar \<noteq> CR" "quotechar \<noteq> LF" "CR \<noteq> LF"
  "quotechar \<noteq> delimiter" "CR \<noteq> delimiter" "LF \<noteq> delimiter"
  "CR \<noteq> quotechar" "LF \<noteq> quotechar" "LF \<noteq> CR"
  by (simp_all add: delimiter_def quotechar_def CR_def LF_def)

lemma in_field_chars:
  assumes "\<forall>c\<in>set xs. c \<noteq> delimiter \<and> c \<noteq> CR \<and> c \<noteq> LF"
    and "length p + length xs \<le> field_limit"
  shows "parse_chars \<lparr>rd_state = IN_FIELD, rd_fields = fs, rd_field = p\<rparr> xs =
         Inr \<lparr>rd_state = IN_FIELD, rd_fields = fs, rd_field = p @ xs\<rparr>"
  using assms
proof (induction xs arbitrary: p)
  case Nil
  show ?case by simp
next
  case (Cons c xs)
  from Cons.prems have step:
    "parse_process_char \<lparr>rd_state = IN_FIELD, rd_fields = fs, rd_field = p\<rparr> (Some c) =
     Inr \<lparr>rd_state = IN_FIELD, rd_fields = fs, rd_field = p @ [c]\<rparr>"
    by (simp add: parse_process_char_def parse_add_char_def)
  from Cons.prems have "length (p @ [c]) + length xs \<le> field_limit" by simp
  with Cons.IH [of "p @ [c]"] Cons.prems(1) step show ?case by simp
qed

lemma in_quoted_chars:
  assumes "length p + length xs \<le> field_limit"
  shows "parse_chars \<lparr>rd_state = IN_QUOTED_FIELD, rd_fields = fs, rd_field = p\<rparr> (double_quotes xs) =
         Inr \<lparr>rd_state = IN_QUOTED_FIELD, rd_fields = fs, rd_field = p @ xs\<rparr>"
  using assms
proof (induction xs arbitrary: p)
  case Nil
  show ?case by (simp add: double_quotes_def)
next
  case (Cons c xs)
  from Cons.prems have len: "length p < field_limit"
    and len': "length (p @ [c]) + length xs \<le> field_limit" by simp_all
  have dq: "double_quotes (c # xs) =
      (if c = quotechar then [quotechar, quotechar] else [c]) @ double_quotes xs"
    by (simp add: double_quotes_def)
  have step: "parse_chars \<lparr>rd_state = IN_QUOTED_FIELD, rd_fields = fs, rd_field = p\<rparr>
        ((if c = quotechar then [quotechar, quotechar] else [c]) @ ys) =
      parse_chars \<lparr>rd_state = IN_QUOTED_FIELD, rd_fields = fs, rd_field = p @ [c]\<rparr> ys" for ys
    using len by (simp add: parse_process_char_def parse_add_char_def set_state_def)
  from Cons.IH [OF len'] show ?case
    by (simp only: dq step) simp
qed

lemma parse_chars_append:
  "parse_chars r (xs @ ys) =
     (case parse_chars r xs of Inl e \<Rightarrow> Inl e | Inr r' \<Rightarrow> parse_chars r' ys)"
  by (induction xs arbitrary: r) (simp_all split: sum.splits)


lemma unquoted_field:
  assumes plain: "\<not> needs_quotes f" and len: "length f \<le> field_limit"
    and sep: "sep = delimiter \<or> sep = LF"
  shows "parse_chars \<lparr>rd_state = START_FIELD, rd_fields = fs, rd_field = []\<rparr> (f @ [sep]) =
         Inr \<lparr>rd_state = after_sep sep, rd_fields = fs @ [f], rd_field = []\<rparr>"
proof (cases f)
  case Nil
  with sep show ?thesis
    by (auto simp: parse_process_char_def start_field_def parse_save_field_def set_state_def
        after_sep_def special_chars_distinct)
next
  case (Cons c cs)
  from plain Cons have c: "c \<noteq> delimiter" "c \<noteq> quotechar" "c \<noteq> CR" "c \<noteq> LF"
    and cs: "\<forall>x\<in>set cs. x \<noteq> delimiter \<and> x \<noteq> CR \<and> x \<noteq> LF"
    by (auto simp: needs_quotes_iff)
  from len Cons have l: "length [c] + length cs \<le> field_limit" by simp
  have first: "parse_process_char \<lparr>rd_state = START_FIELD, rd_fields = fs, rd_field = []\<rparr> (Some c) =
      Inr \<lparr>rd_state = IN_FIELD, rd_fields = fs, rd_field = [c]\<rparr>"
    using c by (simp add: parse_process_char_def start_field_def parse_add_char_def set_state_def
        field_limit_def)
  have last: "parse_process_char \<lparr>rd_state = IN_FIELD, rd_fields = fs, rd_field = c # cs\<rparr> (Some sep) =
      Inr \<lparr>rd_state = after_sep sep, rd_fields = fs @ [c # cs], rd_field = []\<rparr>"
    using sep by (auto simp: parse_process_char_def parse_save_field_def set_state_def
        after_sep_def special_chars_distinct)
  show ?thesis
    using first last in_field_chars [OF cs l, of fs]
    by (simp add: Cons parse_chars_append)
qed

lemma quoted_field:
  assumes len: "length f \<le> field_limit" and sep: "sep = delimiter \<or> sep = LF"
  shows "parse_chars \<lparr>rd_state = START_FIELD, rd_fields = fs, rd_field = []\<rparr>
           ([quotechar] @ double_quotes f @ [quotechar] @ [sep]) =
         Inr \<lparr>rd_state = after_sep sep, rd_fields = fs @ [f], rd_field = []\<rparr>"
proof -
  have first: "parse_process_char \<lparr>rd_state = START_FIELD, rd_fields = fs, rd_field = []\<rparr>
        (Some quotechar) = Inr \<lparr>rd_state = IN_QUOTED_FIELD, rd_fields = fs, rd_field = []\<rparr>"
    by (simp add: parse_process_char_def start_field_def set_state_def special_chars_distinct)
  have close: "parse_process_char \<lparr>rd_state = IN_QUOTED_FIELD, rd_fields = fs, rd_field = f\<rparr>
        (Some quotechar) = Inr \<lparr>rd_state = QUOTE_IN_QUOTED_FIELD, rd_fields = fs, rd_field = f\<rparr>"
    by (simp add: parse_process_char_def set_state_def)
  have last: "parse_process_char \<lparr>rd_state = QUOTE_IN_QUOTED_FIELD, rd_fields = fs, rd_field = f\<rparr>
        (Some sep) = Inr \<lparr>rd_state = after_sep sep, rd_fields = fs @ [f], rd_field = []\<rparr>"
    using sep by (auto simp: parse_process_char_def parse_save_field_def set_state_def
        after_sep_def special_chars_distinct)
  from len have l: "length ([]::string) + length f \<le> field_limit" by simp
  show ?thesis
    using first close last in_quoted_chars [OF l, of fs]
    by (simp add: parse_chars_append)
qed

lemma written_field:
  assumes "length f \<le> field_limit" and "sep = delimiter \<or> sep = LF"
  shows "parse_chars \<lparr>rd_state = START_FIELD, rd_fields = fs, rd_field = []\<rparr>
           (join_append f @ [sep]) =
         Inr \<lparr>rd_state = after_sep sep, rd_fields = fs @ [f], rd_field = []\<rparr>"
proof (cases "needs_quotes f")
  case True
  with quoted_field [OF assms, of fs] show ?thesis by (simp add: join_append_def)
next
  case False
  with unquoted_field [OF False assms, of fs] show ?thesis by (simp add: join_append_def)
qed

lemma written_fields:
  assumes "row \<noteq> []" and "\<forall>f\<in>set row. length f \<le> field_limit"
  shows "parse_chars \<lparr>rd_state = START_FIELD, rd_fields = fs, rd_field = []\<rparr>
           (join_fields row @ [LF]) =
         Inr \<lparr>rd_state = EAT_CRNL, rd_fields = fs @ row, rd_field = []\<rparr>"
  using assms
proof (induction row arbitrary: fs rule: join_fields.induct)
  case 1
  then show ?case by simp
next
  case (2 f)
  then show ?case
    using written_field [of f LF fs] by (simp add: after_sep_def special_chars_distinct)
next
  case (3 f g row)
  have "parse_chars \<lparr>rd_state = START_FIELD, rd_fields = fs, rd_field = []\<rparr>
           (join_append f @ [delimiter]) =
         Inr \<lparr>rd_state = START_FIELD, rd_fields = fs @ [f], rd_field = []\<rparr>"
    using 3 written_field [of f delimiter fs] by (simp add: after_sep_def)
  moreover have "parse_chars \<lparr>rd_state = START_FIELD, rd_fields = fs @ [f], rd_field = []\<rparr>
           (join_fields (g # row) @ [LF]) =
         Inr \<lparr>rd_state = EAT_CRNL, rd_fields = (fs @ [f]) @ g # row, rd_field = []\<rparr>"
    using 3 by simp
  ultimately show ?case
    using parse_chars_append [of "\<lparr>rd_state = START_FIELD, rd_fields = fs, rd_field = []\<rparr>"
        "join_append f @ [delimiter]" "join_fields (g # row) @ [LF]"]
    by simp
qed

lemma writerow_record_text: "writerow row = record_text row @ [CR, LF]"
  by (simp add: writerow_def record_text_def lineterminator_def Let_def)

lemma set_double_quotes: "set (double_quotes f) = set f"
  by (induction f) (auto simp: double_quotes_def)

lemma set_join_append: "set (join_append f) \<subseteq> insert quotechar (set f)"
  by (auto simp: join_append_def set_double_quotes)

lemma set_join_fields:
  "set (join_fields row) \<subseteq> insert quotechar (insert delimiter (\<Union>f\<in>set row. set f))"
proof (induction row rule: join_fields.induct)
  case 1
  show ?case by simp
next
  case (2 f)
  show ?case using set_join_append [of f] by auto
next
  case (3 f g row)
  then show ?case using set_join_append [of f] by auto
qed

lemma record_text_one_line:
  assumes "\<forall>f\<in>set row. one_line f"
  shows "CR \<notin> set (record_text row) \<and> LF \<notin> set (record_text row)"
proof -
  from assms have "CR \<notin> (\<Union>f\<in>set row. set f)" "LF \<notin> (\<Union>f\<in>set row. set f)"
    by (auto simp: one_line_iff)
  with set_join_fields [of row] have "CR \<notin> set (join_fields row)" "LF \<notin> set (join_fields row)"
    by (auto simp: special_chars_distinct)
  then show ?thesis
    by (simp add: record_text_def special_chars_distinct)
qed

lemma join_append_empty: "join_append f = [] \<Longrightarrow> f = []"
  by (simp add: join_append_def split: if_splits)

lemma join_fields_empty: "row \<noteq> [] \<Longrightarrow> join_fields row = [] \<Longrightarrow> row = [[]]"
  by (induction row rule: join_fields.induct) (auto dest: join_append_empty)

lemma start_record_falls_through:
  "c \<noteq> LF \<Longrightarrow> c \<noteq> CR \<Longrightarrow>
   parse_process_char \<lparr>rd_state = START_RECORD, rd_fields = fs, rd_field = p\<rparr> (Some c) =
   parse_process_char \<lparr>rd_state = START_FIELD, rd_fields = fs, rd_field = p\<rparr> (Some c)"
  by (simp add: parse_process_char_def set_state_def)

lemma written_line:
  assumes ol: "\<forall>f\<in>set row. one_line f" and len: "\<forall>f\<in>set row. length f \<le> field_limit"
  shows "parse_line parse_reset (record_text row @ [LF]) =
         Inr \<lparr>rd_state = START_RECORD, rd_fields = row, rd_field = []\<rparr>"
proof -
  let ?start = "\<lparr>rd_state = START_FIELD, rd_fields = [], rd_field = []\<rparr>"
  let ?eat = "\<lparr>rd_state = EAT_CRNL, rd_fields = row, rd_field = []\<rparr>"
  have eol: "parse_process_char ?eat None =
      Inr \<lparr>rd_state = START_RECORD, rd_fields = row, rd_field = []\<rparr>"
    by (simp add: parse_process_char_def set_state_def)
  have chars: "parse_chars parse_reset (record_text row @ [LF]) = Inr ?eat"
  proof (cases "row = []")
    case True
    then show ?thesis
      by (simp add: record_text_def parse_reset_def parse_process_char_def set_state_def)
  next
    case False
    then have ne: "row \<noteq> []" .
    show ?thesis
    proof (cases "join_fields row = []")
      case True
      with ne have "row = [[]]" by (rule join_fields_empty)
      then show ?thesis
        by (simp add: record_text_def join_append_def needs_quotes_def parse_reset_def
            parse_process_char_def start_field_def set_state_def parse_save_field_def
            special_chars_distinct)
    next
      case False
      then have nonempty: "join_fields row \<noteq> []" .
      then obtain c cs where rt: "record_text row = c # cs"
        by (cases "join_fields row") (simp_all add: record_text_def)
      with record_text_one_line [OF ol] have c: "c \<noteq> LF" "c \<noteq> CR" by auto
      have "parse_chars parse_reset (record_text row @ [LF]) =
            parse_chars ?start (record_text row @ [LF])"
        using start_record_falls_through [OF c, of "[]" "[]"]
        by (simp add: rt parse_reset_def)
      also have "\<dots> = parse_chars ?start (join_fields row @ [LF])"
        using nonempty by (simp add: record_text_def)
      also have "\<dots> = Inr ?eat"
        using written_fields [OF ne len, of "[]"] by simp
      finally show ?thesis .
    qed
  qed
  with eol show ?thesis by (simp add: parse_line_def)
qed

lemma universal_newlines_Cons:
  "c \<noteq> CR \<Longrightarrow> universal_newlines (c # s) = c # universal_newlines s"
  by (cases s) simp_all

lemma universal_newlines_line:
  "CR \<notin> set l \<Longrightarrow> universal_newlines (l @ CR # LF # s) = l @ LF # universal_newlines s"
  by (induction l) (auto simp: universal_newlines_Cons)

lemma readlines_line:
  "LF \<notin> set l \<Longrightarrow> readlines (l @ LF # s) = (l @ [LF]) # readlines s"
  by (induction l) auto

lemma readlines_lines:
  "\<forall>l\<in>set ls. LF \<notin> set l \<Longrightarrow>
   readlines (concat (map (\<lambda>l. l @ [LF]) ls)) = map (\<lambda>l. l @ [LF]) ls"
  by (induction ls) (simp_all add: readlines_line)

lemma reader_writer:
  assumes "\<forall>row\<in>set rows. \<forall>f\<in>set row. one_line f \<and> length f \<le> field_limit"
  shows "csv_reader (csv_writer rows) = Inr rows"
  unfolding csv_reader_def
  using assms
proof (induction rows)
  case Nil
  show ?case by (simp add: csv_writer_def parse_reset_def)
next
  case (Cons row rows)
  let ?l = "record_text row"
  from Cons.prems have ol: "\<forall>f\<in>set row. one_line f"
    and len: "\<forall>f\<in>set row. length f \<le> field_limit" by simp_all
  from record_text_one_line [OF ol] have cr: "CR \<notin> set ?l" and lf: "LF \<notin> set ?l"
    by simp_all
  have "csv_writer (row # rows) = ?l @ CR # LF # csv_writer rows"
    by (simp add: csv_writer_def writerow_record_text)
  then have lines: "readlines (universal_newlines (csv_writer (row # rows))) =
      (?l @ [LF]) # readlines (universal_newlines (csv_writer rows))"
    using cr lf by (simp add: universal_newlines_line readlines_line)
  from Cons have rest: "reader_rows parse_reset (readlines (universal_newlines (csv_writer rows))) =
      Inr rows" by simp
  show ?case
    using written_line [OF ol len] rest by (simp add: lines)
qed

lemma make_all_iter: "make_all (map Bookmark_iter bs) = Inr bs"
  by (induction bs) (simp_all add: Bookmark_iter_def Bookmark_make_def)

lemma load_save:
  "load self (save self bs w) =
     (csv_reader (csv_writer (map Bookmark_iter bs)),
      log_event (Ev_open_read (filename self))
        (log_event (Ev_isfile (filename self)) (save self bs w)))"
  by (simp add: load_eq save_def log_event_def Let_def)

lemma in_field_overflow:
  assumes "c \<noteq> delimiter" "c \<noteq> CR" "c \<noteq> LF"
    and "length p \<le> field_limit" and "field_limit < length p + n"
  shows "parse_chars \<lparr>rd_state = IN_FIELD, rd_fields = fs, rd_field = p\<rparr> (replicate n c @ rest) =
         Inl csv_Error"
  using assms(4,5)
proof (induction n arbitrary: p)
  case 0
  then show ?case by simp
next
  case (Suc n)
  show ?case
  proof (cases "length p = field_limit")
    case True
    with assms(1-3) show ?thesis
      by (simp add: parse_process_char_def parse_add_char_def)
  next
    case False
    with Suc.prems have lt: "length p < field_limit" by simp
    then have step: "parse_process_char \<lparr>rd_state = IN_FIELD, rd_fields = fs, rd_field = p\<rparr> (Some c) =
        Inr \<lparr>rd_state = IN_FIELD, rd_fields = fs, rd_field = p @ [c]\<rparr>"
      using assms(1-3) by (simp add: parse_process_char_def parse_add_char_def)
    from lt Suc.prems have "length (p @ [c]) \<le> field_limit" "field_limit < length (p @ [c]) + n"
      by simp_all
    from Suc.IH [OF this] step show ?thesis by simp
  qed
qed


section \<open>The claims\<close>

text \<open>
  \<^bold>\<open>C1\<close>, as amended. For every sequence of bookmarks in which every field is free of
  carriage returns and line feeds (it may hold words, spaces and double quotes) and is
  at most 131072 characters long, the limit of the csv reader, \<^verbatim>\<open>save\<close> followed by
  \<^verbatim>\<open>load\<close> on the same file yields exactly the rows of three fields that were saved,
  in the same order and with every field as it was, and \<^verbatim>\<open>Bookmark._make\<close> turns
  them back into the bookmarks saved. The bookmarks need not be distinct.
\<close>

theorem save_load_roundtrip:
  assumes "\<forall>b\<in>set bs. \<forall>f\<in>set (Bookmark_iter b). one_line f \<and> length f \<le> field_limit"
  shows "load self (save self bs w) =
           (Inr (map Bookmark_iter bs),
            log_event (Ev_open_read (filename self))
              (log_event (Ev_isfile (filename self)) (save self bs w)))
       \<and> make_all (map Bookmark_iter bs) = Inr bs"
proof -
  from assms have "\<forall>row\<in>set (map Bookmark_iter bs). \<forall>f\<in>set row. one_line f \<and> length f \<le> field_limit"
    by simp
  then have "csv_reader (csv_writer (map Bookmark_iter bs)) = Inr (map Bookmark_iter bs)"
    by (rule reader_writer)
  then show ?thesis
    by (simp add: load_save make_all_iter)
qed

theorem save_load_roundtrip_witness:
  "list_all (\<lambda>b. list_all (\<lambda>f. one_line f \<and> length f \<le> field_limit) (Bookmark_iter b))
     [\<lparr>code = ''a1'', url = ''http://example.com'', description = ''My Site''\<rparr>,
      \<lparr>code = ''q'', url = [], description = ''say '' @ [quotechar] @ ''hi'' @ [quotechar]\<rparr>]
   \<and> fst (load \<lparr>filename = ''/m''\<rparr>
         (save \<lparr>filename = ''/m''\<rparr>
            [\<lparr>code = ''a1'', url = ''http://example.com'', description = ''My Site''\<rparr>,
             \<lparr>code = ''q'', url = [], description = ''say '' @ [quotechar] @ ''hi'' @ [quotechar]\<rparr>]
            \<lparr>files = Map.empty, stdout = [], browser = [], fs_log = []\<rparr>))
     = Inr [[''a1'', ''http://example.com'', ''My Site''],
            [''q'', [], ''say '' @ [quotechar] @ ''hi'' @ [quotechar]]]"
proof -
  let ?bs = "[\<lparr>code = ''a1'', url = ''http://example.com'', description = ''My Site''\<rparr>,
              \<lparr>code = ''q'', url = [], description = ''say '' @ [quotechar] @ ''hi'' @ [quotechar]\<rparr>]"
  have h: "\<forall>b\<in>set ?bs. \<forall>f\<in>set (Bookmark_iter b). one_line f \<and> length f \<le> field_limit"
    by (simp add: Bookmark_iter_def one_line_def field_limit_def quotechar_def CR_def LF_def)
  from save_load_roundtrip [OF h, of "\<lparr>filename = ''/m''\<rparr>"
      "\<lparr>files = Map.empty, stdout = [], browser = [], fs_log = []\<rparr>"]
  have "fst (load \<lparr>filename = ''/m''\<rparr> (save \<lparr>filename = ''/m''\<rparr> ?bs
            \<lparr>files = Map.empty, stdout = [], browser = [], fs_log = []\<rparr>))
     = Inr [[''a1'', ''http://example.com'', ''My Site''],
            [''q'', [], ''say '' @ [quotechar] @ ''hi'' @ [quotechar]]]"
    by (simp add: Bookmark_iter_def)
  moreover from h
  have "list_all (\<lambda>b. list_all (\<lambda>f. one_line f \<and> length f \<le> field_limit) (Bookmark_iter b)) ?bs"
    unfolding list_all_iff .
  ultimately show ?thesis by blast
qed

text \<open>
  The claim as stated, for fields of any length, fails: a bookmark whose code is the
  letter \<^verbatim>\<open>a\<close> 131073 times is saved, and loading the file raises \<^verbatim>\<open>_csv.Error\<close>
  (field larger than field limit).
\<close>

theorem long_field_counterexample:
  "fst (load \<lparr>filename = ''/m''\<rparr>
         (save \<lparr>filename = ''/m''\<rparr>
            [\<lparr>code = replicate 131073 (CHR ''a''), url = ''u'', description = ''d''\<rparr>]
            \<lparr>files = Map.empty, stdout = [], browser = [], fs_log = []\<rparr>))
   = Inl csv_Error"
proof -
  let ?a = "CHR ''a''"
  let ?code = "replicate 131073 ?a"
  let ?l = "?code @ '' u d''"
  have a: "?a \<noteq> delimiter" "?a \<noteq> quotechar" "?a \<noteq> CR" "?a \<noteq> LF"
    by (simp_all add: delimiter_def quotechar_def CR_def LF_def)
  have nq: "\<not> needs_quotes ?code"
    using a by (auto simp: needs_quotes_iff)
  have nq': "\<not> needs_quotes ''u''" "\<not> needs_quotes ''d''"
    by (simp_all add: needs_quotes_def lineterminator_def delimiter_def quotechar_def CR_def LF_def)
  have written: "csv_writer [[?code, ''u'', ''d'']] = ?l @ CR # LF # []"
    using nq nq'
    by (simp add: csv_writer_def writerow_def join_append_def lineterminator_def Let_def
        delimiter_def)
  have cr: "CR \<notin> set ?l" and lf: "LF \<notin> set ?l"
    using a by (auto simp: CR_def LF_def)
  have lines: "readlines (universal_newlines (?l @ CR # LF # [])) = [?l @ [LF]]"
    using universal_newlines_line [OF cr, of "[]"] readlines_line [OF lf, of "[]"] by simp
  have first: "parse_process_char parse_reset (Some ?a) =
      Inr \<lparr>rd_state = IN_FIELD, rd_fields = [], rd_field = [?a]\<rparr>"
    using a by (simp add: parse_reset_def parse_process_char_def start_field_def
        parse_add_char_def set_state_def field_limit_def)
  have code: "?code = ?a # replicate 131072 ?a"
    by (simp add: replicate_Suc [symmetric] del: replicate_Suc)
  have "parse_chars \<lparr>rd_state = IN_FIELD, rd_fields = [], rd_field = [?a]\<rparr>
          (replicate 131072 ?a @ '' u d'' @ [LF]) = Inl csv_Error"
    using a by (intro in_field_overflow) (simp_all add: field_limit_def)
  with first have "parse_chars parse_reset (?l @ [LF]) = Inl csv_Error"
    by (simp only: code append_Cons parse_chars.simps) simp
  then have "parse_line parse_reset (?l @ [LF]) = Inl csv_Error"
    by (simp add: parse_line_def)
  then have "reader_rows parse_reset [?l @ [LF]] = Inl csv_Error"
    by simp
  with lines written have "csv_reader (csv_writer [[?code, ''u'', ''d'']]) = Inl csv_Error"
    by (simp only: csv_reader_def)
  then show ?thesis
    by (simp add: load_save Bookmark_iter_def)
qed

text \<open>
  \<^bold>\<open>C2\<close>. For every collection and every \<^verbatim>\<open>add\<close> without \<^verbatim>\<open>-f\<close> whose code is
  already a key of the collection, the command raises \<open>ApplicationError\<close> (the spec's
  DuplicateCodeError) with the message made of the formatted text of the bookmark that
  is there and the hint to add the option \<^verbatim>\<open>-f\<close>; the application and the world are the
  ones the command started from, so neither the collection nor any file is changed and
  the log of file accesses gains no write.
\<close>

theorem add_existing_without_force:
  assumes "command_args (settings self) = [c, u, d]"
    and "\<not> force (settings self)"
    and "od_contains c (bookmarks self)"
  shows "\<exists>old. od_get (bookmarks self) c = Some old \<and>
           add_cmd self w =
             (Some (ApplicationError
                (''There is a bookmark with that code:'' @ [LF] @ Bookmark_str old @ [LF, LF] @
                 ''To override it add option -f'')),
              self, w)"
proof -
  from assms(3) obtain old where old: "od_get (bookmarks self) c = Some old"
    by (auto simp: od_get_contains)
  with assms show ?thesis
    by (simp add: add_cmd_def Bookmark_make_def duplicate_message_def)
qed

theorem add_existing_without_force_witness:
  "od_contains ''a1'' [(''a1'', \<lparr>code = ''a1'', url = ''http://x.com'', description = ''desc''\<rparr>)]
   \<and> add_cmd
        \<lparr>settings = \<lparr>command = Cmd_add, command_args = [''a1'', ''http://y.com'', ''desc2''],
                     force = False, storage_path = ''/m''\<rparr>,
         storage = \<lparr>filename = ''/m''\<rparr>,
         bookmarks = [(''a1'', \<lparr>code = ''a1'', url = ''http://x.com'', description = ''desc''\<rparr>)]\<rparr>
        \<lparr>files = Map.empty, stdout = [], browser = [], fs_log = []\<rparr>
      = (Some (ApplicationError
           (''There is a bookmark with that code:'' @ [LF] @ ''[a1] http://x.com - desc'' @ [LF, LF] @
            ''To override it add option -f'')),
         \<lparr>settings = \<lparr>command = Cmd_add, command_args = [''a1'', ''http://y.com'', ''desc2''],
                      force = False, storage_path = ''/m''\<rparr>,
          storage = \<lparr>filename = ''/m''\<rparr>,
          bookmarks = [(''a1'', \<lparr>code = ''a1'', url = ''http://x.com'', description = ''desc''\<rparr>)]\<rparr>,
         \<lparr>files = Map.empty, stdout = [], browser = [], fs_log = []\<rparr>)"
  using add_existing_without_force
    [of "\<lparr>settings = \<lparr>command = Cmd_add, command_args = [''a1'', ''http://y.com'', ''desc2''],
                      force = False, storage_path = ''/m''\<rparr>,
          storage = \<lparr>filename = ''/m''\<rparr>,
          bookmarks = [(''a1'', \<lparr>code = ''a1'', url = ''http://x.com'', description = ''desc''\<rparr>)]\<rparr>"
        "''a1''" "''http://y.com''" "''desc2''"
        "\<lparr>files = Map.empty, stdout = [], browser = [], fs_log = []\<rparr>"]
  by (simp add: od_contains_def od_keys_def od_get_def Bookmark_str_def)

text \<open>
  \<^bold>\<open>C3\<close>, as amended. The storage path of the settings is the tilde-expanded value of
  the environment variable \<^verbatim>\<open>WEBMARK_STORAGE_PATH\<close> whenever that variable is set, whether
  or not \<^verbatim>\<open>--storage-path\<close> was given; only when the variable is not set is it the
  expanded value of the flag, or of the default \<^verbatim>\<open>~/.webmark\<close> when there is no flag.
\<close>

theorem storage_path_precedence:
  assumes "Settings_init e a = Inr s"
  shows "storage_path s =
           expanduser e
             (case environ e ''WEBMARK_STORAGE_PATH'' of
                Some v \<Rightarrow> v
              | None \<Rightarrow> (case arg_storage_path a of Some p \<Rightarrow> p | None \<Rightarrow> ''~/.webmark''))"
  using assms
  by (auto simp: Settings_init_def init_from_args_def fill_namespace_def init_from_env_def Let_def
      split: sum.splits option.splits if_splits)

theorem storage_path_precedence_witness:
  "Settings_init
     \<lparr>environ = [''WEBMARK_STORAGE_PATH'' \<mapsto> ''~/marks'', ''HOME'' \<mapsto> ''/home/u''],
      pw_self = None, pw_dir = Map.empty\<rparr>
     \<lparr>arg_command = Some ''list'', arg_command_args = [], arg_f = False,
      arg_storage_path = Some ''/tmp/flag''\<rparr>
   = Inr \<lparr>command = Cmd_list, command_args = [], force = False, storage_path = ''/home/u/marks''\<rparr>"
proof -
  let ?e = "\<lparr>environ = [''WEBMARK_STORAGE_PATH'' \<mapsto> ''~/marks'', ''HOME'' \<mapsto> ''/home/u''],
      pw_self = None, pw_dir = Map.empty\<rparr>"
  let ?a = "\<lparr>arg_command = Some ''list'', arg_command_args = [], arg_f = False,
      arg_storage_path = Some ''/tmp/flag''\<rparr>"
  obtain s where s: "Settings_init ?e ?a = Inr s"
    by (simp add: Settings_init_def init_from_args_def fill_namespace_def choices_def Let_def)
  have cmd: "command s = Cmd_list" "command_args s = []" "force s = False"
    using s
    by (auto simp: Settings_init_def init_from_args_def fill_namespace_def choices_def Let_def
        init_from_env_def)
  from storage_path_precedence [OF s]
  have "storage_path s = ''/home/u/marks''"
    by (simp add: expanduser_def rstrip_slash_def)
  with cmd s show ?thesis by (cases s) simp
qed

text \<open>
  The claim as stated, that an explicit \<^verbatim>\<open>--storage-path\<close> wins over the environment
  variable, fails: with the flag \<^verbatim>\<open>/tmp/flag\<close> and the variable set to \<^verbatim>\<open>/tmp/env\<close> the
  storage path is \<^verbatim>\<open>/tmp/env\<close>.
\<close>

theorem flag_precedence_counterexample:
  "Settings_init
     \<lparr>environ = [''WEBMARK_STORAGE_PATH'' \<mapsto> ''/tmp/env''], pw_self = None, pw_dir = Map.empty\<rparr>
     \<lparr>arg_command = Some ''list'', arg_command_args = [], arg_f = False,
      arg_storage_path = Some ''/tmp/flag''\<rparr>
   = Inr \<lparr>command = Cmd_list, command_args = [], force = False, storage_path = ''/tmp/env''\<rparr>
   \<and> ''/tmp/env'' \<noteq> ''/tmp/flag''"
  by (simp add: Settings_init_def init_from_args_def fill_namespace_def init_from_env_def Let_def
      choices_def expanduser_def)

text \<open>
  \<^bold>\<open>C4\<close>. For every collection (with keys that are distinct, see C9) and every
  \<^verbatim>\<open>rm\<close>: when the code is not a key, the command raises \<open>ApplicationError\<close> (the spec's
  UnknownCodeError) naming the code, and the application and the world are unchanged,
  so nothing was saved; when the code is a key, its entry is removed, the other entries
  stay in their order, and the storage file is rewritten with exactly the rows of the
  collection that is left.
\<close>

theorem rm_cmd_effect:
  assumes "command_args (settings self) = [c]"
    and "distinct (od_keys (bookmarks self))"
  shows "(\<not> od_contains c (bookmarks self) \<longrightarrow>
            rm_cmd self w =
              (Some (ApplicationError (''There is no bookmark with code '' @ c)), self, w))
       \<and> (od_contains c (bookmarks self) \<longrightarrow>
            (let d = filter (\<lambda>kv. fst kv \<noteq> c) (bookmarks self);
                 self1 = self\<lparr>bookmarks := d\<rparr>
             in rm_cmd self w = (None, self1, save (storage self) (od_values d) w)
                \<and> \<not> od_contains c d
                \<and> files (save (storage self) (od_values d) w) =
                    (files w)(filename (storage self) \<mapsto> csv_writer (map Bookmark_iter (od_values d)))))"
proof (intro conjI impI)
  assume "\<not> od_contains c (bookmarks self)"
  with assms(1) show "rm_cmd self w =
      (Some (ApplicationError (''There is no bookmark with code '' @ c)), self, w)"
    by (simp add: rm_cmd_def od_pop_absent unknown_message_def)
next
  assume in_d: "od_contains c (bookmarks self)"
  then obtain b where b: "od_get (bookmarks self) c = Some b"
    by (auto simp: od_get_contains)
  from od_pop_present [OF assms(2) in_d] b assms(1)
  show "let d = filter (\<lambda>kv. fst kv \<noteq> c) (bookmarks self);
            self1 = self\<lparr>bookmarks := d\<rparr>
        in rm_cmd self w = (None, self1, save (storage self) (od_values d) w)
           \<and> \<not> od_contains c d
           \<and> files (save (storage self) (od_values d) w) =
               (files w)(filename (storage self) \<mapsto> csv_writer (map Bookmark_iter (od_values d)))"
    by (auto simp: rm_cmd_def Let_def save_files od_contains_def od_keys_def)
qed

theorem rm_cmd_effect_witness:
  "distinct (od_keys [(''a'', \<lparr>code = ''a'', url = ''u'', description = ''d''\<rparr>),
                      (''b'', \<lparr>code = ''b'', url = ''v'', description = ''e f''\<rparr>)])
   \<and> od_contains ''a'' [(''a'', \<lparr>code = ''a'', url = ''u'', description = ''d''\<rparr>),
                         (''b'', \<lparr>code = ''b'', url = ''v'', description = ''e f''\<rparr>)]
   \<and> (case rm_cmd
          \<lparr>settings = \<lparr>command = Cmd_rm, command_args = [''a''], force = False,
                       storage_path = ''/m''\<rparr>,
           storage = \<lparr>filename = ''/m''\<rparr>,
           bookmarks = [(''a'', \<lparr>code = ''a'', url = ''u'', description = ''d''\<rparr>),
                        (''b'', \<lparr>code = ''b'', url = ''v'', description = ''e f''\<rparr>)]\<rparr>
          \<lparr>files = Map.empty, stdout = [], browser = [], fs_log = []\<rparr>
       of (r, self1, w1) \<Rightarrow>
          r = None
          \<and> bookmarks self1 = [(''b'', \<lparr>code = ''b'', url = ''v'', description = ''e f''\<rparr>)]
          \<and> files w1 ''/m'' = Some (''b v '' @ [quotechar] @ ''e f'' @ [quotechar, CR, LF])
          \<and> fs_log w1 = [Ev_open_write ''/m''])
   \<and> \<not> od_contains ''z'' [(''a'', \<lparr>code = ''a'', url = ''u'', description = ''d''\<rparr>),
                           (''b'', \<lparr>code = ''b'', url = ''v'', description = ''e f''\<rparr>)]
   \<and> rm_cmd
        \<lparr>settings = \<lparr>command = Cmd_rm, command_args = [''z''], force = False,
                     storage_path = ''/m''\<rparr>,
         storage = \<lparr>filename = ''/m''\<rparr>,
         bookmarks = [(''a'', \<lparr>code = ''a'', url = ''u'', description = ''d''\<rparr>),
                      (''b'', \<lparr>code = ''b'', url = ''v'', description = ''e f''\<rparr>)]\<rparr>
        \<lparr>files = Map.empty, stdout = [], browser = [], fs_log = []\<rparr>
      = (Some (ApplicationError ''There is no bookmark with code z''),
         \<lparr>settings = \<lparr>command = Cmd_rm, command_args = [''z''], force = False,
                      storage_path = ''/m''\<rparr>,
          storage = \<lparr>filename = ''/m''\<rparr>,
          bookmarks = [(''a'', \<lparr>code = ''a'', url = ''u'', description = ''d''\<rparr>),
                       (''b'', \<lparr>code = ''b'', url = ''v'', description = ''e f''\<rparr>)]\<rparr>,
         \<lparr>files = Map.empty, stdout = [], browser = [], fs_log = []\<rparr>)"
proof -
  let ?d = "[(''a'', \<lparr>code = ''a'', url = ''u'', description = ''d''\<rparr>),
            (''b'', \<lparr>code = ''b'', url = ''v'', description = ''e f''\<rparr>)]"
  let ?w = "\<lparr>files = Map.empty, stdout = [], browser = [], fs_log = []\<rparr>"
  let ?self = "\<lambda>c. \<lparr>settings = \<lparr>command = Cmd_rm, command_args = [c], force = False,
                                  storage_path = ''/m''\<rparr>,
                      storage = \<lparr>filename = ''/m''\<rparr>, bookmarks = ?d\<rparr>"
  have dist: "distinct (od_keys ?d)" and a: "od_contains ''a'' ?d" and z: "\<not> od_contains ''z'' ?d"
    by (simp_all add: od_keys_def od_contains_def)
  have present: "case rm_cmd (?self ''a'') ?w of (r, self1, w1) \<Rightarrow>
          r = None
          \<and> bookmarks self1 = [(''b'', \<lparr>code = ''b'', url = ''v'', description = ''e f''\<rparr>)]
          \<and> files w1 ''/m'' = Some (''b v '' @ [quotechar] @ ''e f'' @ [quotechar, CR, LF])
          \<and> fs_log w1 = [Ev_open_write ''/m'']"
    using rm_cmd_effect [of "?self ''a''" "''a''" ?w] dist a
    by (simp add: od_values_def save_def log_event_def Let_def
        csv_writer_def Bookmark_iter_def writerow_def join_append_def needs_quotes_def
        double_quotes_def lineterminator_def delimiter_def quotechar_def CR_def LF_def)
  have absent: "rm_cmd (?self ''z'') ?w =
      (Some (ApplicationError ''There is no bookmark with code z''), ?self ''z'', ?w)"
    using rm_cmd_effect [of "?self ''z''" "''z''" ?w] dist z
    by simp
  from dist a present z absent show ?thesis by blast
qed

text \<open>
  \<^bold>\<open>C5\<close>. \<^verbatim>\<open>add\<close> with \<^verbatim>\<open>-f\<close>, twice for the same code: starting from any
  collection with distinct keys, neither call raises; afterwards the code is a key
  exactly once and its bookmark holds the url and description of the second call; when
  the code was a key before, the collection is the old one with that entry replaced
  where it stood (same keys in the same order), and when it was not, the collection is
  the old one with the new entry at its end; a second call with the same url and
  description changes nothing; and the file holds the rows of the final collection.
\<close>

theorem add_force_twice:
  assumes inv: "distinct (od_keys (bookmarks self))"
    and s1: "command_args s1 = [c, u1, d1]" "force s1"
    and s2: "command_args s2 = [c, u2, d2]" "force s2"
    and a1: "add_cmd (self\<lparr>settings := s1\<rparr>) w = (r1, self1, w1)"
    and a2: "add_cmd (self1\<lparr>settings := s2\<rparr>) w1 = (r2, self2, w2)"
  shows "r1 = None \<and> r2 = None
       \<and> length (filter (\<lambda>k. k = c) (od_keys (bookmarks self2))) = 1
       \<and> od_get (bookmarks self2) c = Some \<lparr>code = c, url = u2, description = d2\<rparr>
       \<and> (od_contains c (bookmarks self) \<longrightarrow>
            bookmarks self2 =
              map (\<lambda>kv. if fst kv = c then (c, \<lparr>code = c, url = u2, description = d2\<rparr>) else kv)
                (bookmarks self)
            \<and> od_keys (bookmarks self2) = od_keys (bookmarks self))
       \<and> (\<not> od_contains c (bookmarks self) \<longrightarrow>
            bookmarks self2 = bookmarks self @ [(c, \<lparr>code = c, url = u2, description = d2\<rparr>)])
       \<and> od_keys (bookmarks self2) = od_keys (bookmarks self1)
       \<and> (u1 = u2 \<and> d1 = d2 \<longrightarrow> bookmarks self2 = bookmarks self1)
       \<and> files w2 = (files w1)(filename (storage self) \<mapsto>
                        csv_writer (map Bookmark_iter (od_values (bookmarks self2))))"
proof -
  let ?b1 = "\<lparr>code = c, url = u1, description = d1\<rparr>"
  let ?b2 = "\<lparr>code = c, url = u2, description = d2\<rparr>"
  let ?d0 = "bookmarks self"
  let ?d1 = "od_setitem c ?b1 ?d0"
  let ?d2 = "od_setitem c ?b2 ?d1"
  from a1 s1 have r1: "r1 = None" and self1: "self1 = self\<lparr>settings := s1, bookmarks := ?d1\<rparr>"
    by (simp_all add: add_cmd_force Let_def)
  from a2 s2 self1 have r2: "r2 = None"
    and self2: "self2 = self\<lparr>settings := s2, bookmarks := ?d2\<rparr>"
    and w2: "w2 = save (storage self) (od_values ?d2) w1"
    by (simp_all add: add_cmd_force Let_def)
  have in1: "od_contains c ?d1"
    by (simp add: od_contains_def od_keys_setitem)
  have dist1: "distinct (od_keys ?d1)"
    using inv by (rule distinct_setitem)
  have keys2: "od_keys ?d2 = od_keys ?d1"
    using in1 by (simp add: od_keys_setitem od_contains_def)
  have cnt: "length (filter (\<lambda>k. k = c) (od_keys ?d2)) = 1"
    using dist1 in1 by (simp add: keys2 count_distinct od_contains_def)
  have get2: "od_get ?d2 c = Some ?b2"
    by (simp add: od_get_setitem)
  have d2_eq: "?d2 = map (\<lambda>kv. if fst kv = c then (c, ?b2) else kv) ?d1"
    using dist1 in1 by (rule od_setitem_present)
  have present: "?d2 = map (\<lambda>kv. if fst kv = c then (c, ?b2) else kv) ?d0"
    if "od_contains c ?d0"
  proof -
    have "?d1 = map (\<lambda>kv. if fst kv = c then (c, ?b1) else kv) ?d0"
      using inv that by (rule od_setitem_present)
    then have "?d2 = map (\<lambda>kv. if fst kv = c then (c, ?b2) else kv)
                      (map (\<lambda>kv. if fst kv = c then (c, ?b1) else kv) ?d0)"
      using d2_eq by simp
    also have "\<dots> = map (\<lambda>kv. if fst kv = c then (c, ?b2) else kv) ?d0"
      by (simp add: o_def)
    finally show ?thesis .
  qed
  have absent: "?d2 = ?d0 @ [(c, ?b2)]" if "\<not> od_contains c ?d0"
  proof -
    have id0: "map (\<lambda>kv. if fst kv = c then (c, ?b2) else kv) ?d0 = ?d0"
      using that by (intro map_idI) (auto simp: od_contains_def od_keys_def)
    have "?d1 = ?d0 @ [(c, ?b1)]"
      using that by (rule od_setitem_absent)
    then have "?d2 = map (\<lambda>kv. if fst kv = c then (c, ?b2) else kv) (?d0 @ [(c, ?b1)])"
      using d2_eq by simp
    also have "\<dots> = ?d0 @ [(c, ?b2)]"
      using id0 by simp
    finally show ?thesis .
  qed
  have same: "?d2 = ?d1" if "u1 = u2 \<and> d1 = d2"
    using that by (simp add: od_setitem_twice)
  have keys_present: "od_keys ?d2 = od_keys ?d0" if "od_contains c ?d0"
    using that by (simp add: keys2 od_keys_setitem od_contains_def)
  show ?thesis
    using r1 r2 cnt get2 present absent keys2 same keys_present
    by (simp add: self1 self2 w2 save_files)
qed

theorem add_force_twice_witness:
  "(case add_cmd
      \<lparr>settings = \<lparr>command = Cmd_add, command_args = [''a'', ''u1'', ''d1''], force = True,
                   storage_path = ''/m''\<rparr>,
       storage = \<lparr>filename = ''/m''\<rparr>,
       bookmarks = [(''a'', \<lparr>code = ''a'', url = ''u'', description = ''d''\<rparr>),
                    (''b'', \<lparr>code = ''b'', url = ''v'', description = ''e''\<rparr>)]\<rparr>
      \<lparr>files = Map.empty, stdout = [], browser = [], fs_log = []\<rparr>
    of (r1, self1, w1) \<Rightarrow>
      (case add_cmd
         (self1\<lparr>settings := \<lparr>command = Cmd_add, command_args = [''a'', ''u2'', ''d2''],
                               force = True, storage_path = ''/m''\<rparr>\<rparr>) w1
       of (r2, self2, w2) \<Rightarrow>
         r1 = None \<and> r2 = None
         \<and> bookmarks self2 = [(''a'', \<lparr>code = ''a'', url = ''u2'', description = ''d2''\<rparr>),
                               (''b'', \<lparr>code = ''b'', url = ''v'', description = ''e''\<rparr>)]
         \<and> files w2 ''/m'' = Some (''a u2 d2'' @ [CR, LF] @ ''b v e'' @ [CR, LF])))"
proof -
  let ?s1 = "\<lparr>command = Cmd_add, command_args = [''a'', ''u1'', ''d1''], force = True,
              storage_path = ''/m''\<rparr>"
  let ?s2 = "\<lparr>command = Cmd_add, command_args = [''a'', ''u2'', ''d2''], force = True,
              storage_path = ''/m''\<rparr>"
  let ?self = "\<lparr>settings = ?s1, storage = \<lparr>filename = ''/m''\<rparr>,
       bookmarks = [(''a'', \<lparr>code = ''a'', url = ''u'', description = ''d''\<rparr>),
                    (''b'', \<lparr>code = ''b'', url = ''v'', description = ''e''\<rparr>)]\<rparr>"
  let ?w = "\<lparr>files = Map.empty, stdout = [], browser = [], fs_log = []\<rparr>"
  obtain r1 self1 w1 where a1: "add_cmd (?self\<lparr>settings := ?s1\<rparr>) ?w = (r1, self1, w1)"
    by (cases "add_cmd (?self\<lparr>settings := ?s1\<rparr>) ?w") auto
  obtain r2 self2 w2 where a2: "add_cmd (self1\<lparr>settings := ?s2\<rparr>) w1 = (r2, self2, w2)"
    by (cases "add_cmd (self1\<lparr>settings := ?s2\<rparr>) w1") auto
  have inv: "distinct (od_keys (bookmarks ?self))"
    by (simp add: od_keys_def)
  have c: "od_contains ''a'' (bookmarks ?self)"
    by (simp add: od_contains_def od_keys_def)
  have p1: "command_args ?s1 = [''a'', ''u1'', ''d1'']" and p2: "force ?s1"
    and p3: "command_args ?s2 = [''a'', ''u2'', ''d2'']" and p4: "force ?s2"
    by simp_all
  from add_force_twice [OF inv p1 p2 p3 p4 a1 a2] c
  have "r1 = None" "r2 = None"
    "bookmarks self2 = [(''a'', \<lparr>code = ''a'', url = ''u2'', description = ''d2''\<rparr>),
                        (''b'', \<lparr>code = ''b'', url = ''v'', description = ''e''\<rparr>)]"
    "files w2 = (files w1)(''/m'' \<mapsto> csv_writer (map Bookmark_iter (od_values (bookmarks self2))))"
    by simp_all
  then have "r1 = None \<and> r2 = None
      \<and> bookmarks self2 = [(''a'', \<lparr>code = ''a'', url = ''u2'', description = ''d2''\<rparr>),
                            (''b'', \<lparr>code = ''b'', url = ''v'', description = ''e''\<rparr>)]
      \<and> files w2 ''/m'' = Some (''a u2 d2'' @ [CR, LF] @ ''b v e'' @ [CR, LF])"
    by (simp add: od_values_def csv_writer_def Bookmark_iter_def writerow_def join_append_def
        needs_quotes_def double_quotes_def lineterminator_def delimiter_def quotechar_def
        CR_def LF_def)
  with a1 a2 show ?thesis by simp
qed

text \<open>
  \<^bold>\<open>C6\<close>, as amended. For every collection, \<^verbatim>\<open>list\<close> prints the literal placeholder
  \<^verbatim>\<open>"\tIt's empty here!  :(  "\<close> when the collection is empty, and otherwise the text
  \<^verbatim>\<open>[code] url - description\<close> followed by a newline once per bookmark, in the order of
  the collection; the command raises nothing and leaves the application, the files and
  the log of file accesses as they were. When no field of a bookmark holds a line break
  (a carriage return or a line feed), what is printed is exactly one line per bookmark,
  each line being \<^verbatim>\<open>[code] url - description\<close>.
\<close>

theorem list_cmd_output:
  "list_cmd self w =
     (None, self,
      w\<lparr>stdout := stdout w @
         (if bookmarks self = []
          then [TAB] @ ''It'' @ [CHR 0x27] @ ''s empty here!  :(  '' @ [LF]
          else concat (map (\<lambda>b. ''['' @ code b @ ''] '' @ url b @ '' - '' @ description b @ [LF])
                       (od_values (bookmarks self))))\<rparr>)
   \<and> ((\<forall>b\<in>set (od_values (bookmarks self)).
          one_line (code b) \<and> one_line (url b) \<and> one_line (description b)) \<longrightarrow>
        readlines
          (concat (map (\<lambda>b. ''['' @ code b @ ''] '' @ url b @ '' - '' @ description b @ [LF])
                    (od_values (bookmarks self)))) =
        map (\<lambda>b. ''['' @ code b @ ''] '' @ url b @ '' - '' @ description b @ [LF])
          (od_values (bookmarks self)))"
proof (intro conjI impI)
  show "list_cmd self w =
     (None, self,
      w\<lparr>stdout := stdout w @
         (if bookmarks self = []
          then [TAB] @ ''It'' @ [CHR 0x27] @ ''s empty here!  :(  '' @ [LF]
          else concat (map (\<lambda>b. ''['' @ code b @ ''] '' @ url b @ '' - '' @ description b @ [LF])
                       (od_values (bookmarks self))))\<rparr>)"
    by (simp add: list_cmd_def fold_print print_def empty_message_def Bookmark_str_def
        od_values_def)
next
  let ?fmt = "\<lambda>b. ''['' @ code b @ ''] '' @ url b @ '' - '' @ description b"
  assume ol: "\<forall>b\<in>set (od_values (bookmarks self)).
      one_line (code b) \<and> one_line (url b) \<and> one_line (description b)"
  have "\<forall>l\<in>set (map ?fmt (od_values (bookmarks self))). LF \<notin> set l"
    using ol by (auto simp: one_line_iff LF_def)
  from readlines_lines [OF this]
  show "readlines
          (concat (map (\<lambda>b. ''['' @ code b @ ''] '' @ url b @ '' - '' @ description b @ [LF])
                    (od_values (bookmarks self)))) =
        map (\<lambda>b. ''['' @ code b @ ''] '' @ url b @ '' - '' @ description b @ [LF])
          (od_values (bookmarks self))"
    by (simp add: o_def)
qed

theorem list_cmd_output_witness:
  "list_cmd
     \<lparr>settings = \<lparr>command = Cmd_list, command_args = [], force = False, storage_path = ''/m''\<rparr>,
      storage = \<lparr>filename = ''/m''\<rparr>,
      bookmarks = [(''a1'', \<lparr>code = ''a1'', url = ''http://example.com'', description = ''My Site''\<rparr>),
                   (''b'', \<lparr>code = ''b'', url = ''u'', description = ''d''\<rparr>)]\<rparr>
     \<lparr>files = Map.empty, stdout = [], browser = [], fs_log = []\<rparr>
   = (None,
      \<lparr>settings = \<lparr>command = Cmd_list, command_args = [], force = False, storage_path = ''/m''\<rparr>,
       storage = \<lparr>filename = ''/m''\<rparr>,
       bookmarks = [(''a1'', \<lparr>code = ''a1'', url = ''http://example.com'', description = ''My Site''\<rparr>),
                    (''b'', \<lparr>code = ''b'', url = ''u'', description = ''d''\<rparr>)]\<rparr>,
      \<lparr>files = Map.empty,
       stdout = ''[a1] http://example.com - My Site'' @ [LF] @ ''[b] u - d'' @ [LF],
       browser = [], fs_log = []\<rparr>)
   \<and> list_all (\<lambda>b. one_line (code b) \<and> one_line (url b) \<and> one_line (description b))
        [\<lparr>code = ''a1'', url = ''http://example.com'', description = ''My Site''\<rparr>,
         \<lparr>code = ''b'', url = ''u'', description = ''d''\<rparr>]
   \<and> readlines (''[a1] http://example.com - My Site'' @ [LF] @ ''[b] u - d'' @ [LF])
       = [''[a1] http://example.com - My Site'' @ [LF], ''[b] u - d'' @ [LF]]"
proof -
  let ?bs = "[\<lparr>code = ''a1'', url = ''http://example.com'', description = ''My Site''\<rparr>,
              \<lparr>code = ''b'', url = ''u'', description = ''d''\<rparr>]"
  let ?self = "\<lparr>settings = \<lparr>command = Cmd_list, command_args = [], force = False,
                              storage_path = ''/m''\<rparr>,
                 storage = \<lparr>filename = ''/m''\<rparr>,
                 bookmarks = [(''a1'', \<lparr>code = ''a1'', url = ''http://example.com'',
                                       description = ''My Site''\<rparr>),
                              (''b'', \<lparr>code = ''b'', url = ''u'', description = ''d''\<rparr>)]\<rparr>"
  let ?w = "\<lparr>files = Map.empty, stdout = [], browser = [], fs_log = []\<rparr>"
  have ol: "list_all (\<lambda>b. one_line (code b) \<and> one_line (url b) \<and> one_line (description b)) ?bs"
    by (simp add: one_line_def CR_def LF_def)
  then have ol': "\<forall>b\<in>set (od_values (bookmarks ?self)).
      one_line (code b) \<and> one_line (url b) \<and> one_line (description b)"
    by (simp add: od_values_def)
  from list_cmd_output [of ?self ?w] ol'
  have "list_cmd ?self ?w =
      (None, ?self,
       \<lparr>files = Map.empty,
        stdout = ''[a1] http://example.com - My Site'' @ [LF] @ ''[b] u - d'' @ [LF],
        browser = [], fs_log = []\<rparr>)"
    and "readlines (''[a1] http://example.com - My Site'' @ [LF] @ ''[b] u - d'' @ [LF])
       = [''[a1] http://example.com - My Site'' @ [LF], ''[b] u - d'' @ [LF]]"
    by (simp_all add: od_values_def)
  with ol show ?thesis by blast
qed

text \<open>
  The claim as stated, one line per bookmark for every collection, fails: a collection
  of one bookmark whose description is \<^verbatim>\<open>x\<close>, a line feed and \<^verbatim>\<open>y\<close> (a description that
  \<^verbatim>\<open>add\<close> accepts and the storage keeps, quoted) is listed on two lines, the second of
  which is \<^verbatim>\<open>y\<close>.
\<close>

theorem list_two_lines_counterexample:
  "stdout (snd (snd (list_cmd
      \<lparr>settings = \<lparr>command = Cmd_list, command_args = [], force = False, storage_path = ''/m''\<rparr>,
       storage = \<lparr>filename = ''/m''\<rparr>,
       bookmarks = [(''c'', \<lparr>code = ''c'', url = ''u'', description = ''x'' @ [LF] @ ''y''\<rparr>)]\<rparr>
      \<lparr>files = Map.empty, stdout = [], browser = [], fs_log = []\<rparr>)))
     = ''[c] u - x'' @ [LF] @ ''y'' @ [LF]
   \<and> readlines (''[c] u - x'' @ [LF] @ ''y'' @ [LF]) = [''[c] u - x'' @ [LF], ''y'' @ [LF]]
   \<and> length (od_values [(''c'', \<lparr>code = ''c'', url = ''u'', description = ''x'' @ [LF] @ ''y''\<rparr>)])
       = 1
   \<and> length (readlines (''[c] u - x'' @ [LF] @ ''y'' @ [LF])) = 2"
  by (simp add: list_cmd_def print_def Bookmark_str_def od_values_def LF_def)

text \<open>
  \<^bold>\<open>C7\<close>. When no file exists at the storage path, \<^verbatim>\<open>CSVObjectStorage.load\<close>
  yields the empty sequence of rows and raises nothing, so that \<^verbatim>\<open>BookmarksApp\<close> is
  constructed with an empty collection; the file is asked for, never opened.
\<close>

theorem load_missing:
  assumes "files w (storage_path s) = None"
  shows "load \<lparr>filename = storage_path s\<rparr> w = (Inr [], log_event (Ev_isfile (storage_path s)) w)
       \<and> BookmarksApp_init s w =
           (Inr \<lparr>settings = s, storage = \<lparr>filename = storage_path s\<rparr>, bookmarks = []\<rparr>,
            log_event (Ev_isfile (storage_path s)) w)"
  using assms by (simp add: load_eq BookmarksApp_init_def load_iter_def OrderedDict_def Let_def)

theorem load_missing_witness:
  "files \<lparr>files = Map.empty, stdout = [], browser = [], fs_log = []\<rparr> ''/home/u/.webmark'' = None
   \<and> BookmarksApp_init
        \<lparr>command = Cmd_list, command_args = [], force = False, storage_path = ''/home/u/.webmark''\<rparr>
        \<lparr>files = Map.empty, stdout = [], browser = [], fs_log = []\<rparr>
      = (Inr \<lparr>settings = \<lparr>command = Cmd_list, command_args = [], force = False,
                           storage_path = ''/home/u/.webmark''\<rparr>,
              storage = \<lparr>filename = ''/home/u/.webmark''\<rparr>, bookmarks = []\<rparr>,
         \<lparr>files = Map.empty, stdout = [], browser = [],
          fs_log = [Ev_isfile ''/home/u/.webmark'']\<rparr>)"
  using load_missing
    [of "\<lparr>files = Map.empty, stdout = [], browser = [], fs_log = []\<rparr>"
        "\<lparr>command = Cmd_list, command_args = [], force = False, storage_path = ''/home/u/.webmark''\<rparr>"]
  by (simp add: log_event_def)

text \<open>
  \<^bold>\<open>C8\<close>, as amended. For a command line that the argument parser has sorted into its
  arguments: an \<open>ArgumentsError\<close> raised while the settings are built ends the process
  with status 1 after printing its message, with no traceback, and with the files and
  the log of file accesses untouched, so no file was asked for, read or written; an
  \<open>ApplicationError\<close> raised by the command ends the process with status 1 after
  printing its message, with no traceback; a wrong number of positional arguments for
  \<^verbatim>\<open>add\<close>, \<^verbatim>\<open>open\<close> or \<^verbatim>\<open>rm\<close> is such an \<open>ArgumentsError\<close>. A command that is not
  among the four choices is not: the argument parser itself ends the process, with
  status 2. And whenever the parser ends the process, for this or another usage error
  in the command line or after \<^verbatim>\<open>-h\<close>, the process ends with the parser's status, not
  with status 1, before any file access, and standard output holds nothing but what the
  parser wrote there.
\<close>

theorem errors_at_top_level:
  "(Settings_init e a = Inl (ArgumentsError m) \<longrightarrow>
      main e (Collected a) w = (Exit 1, w\<lparr>stdout := stdout w @ m @ [LF]\<rparr>))
   \<and> (Settings_init e a = Inr s \<and> BookmarksApp_init s w = (Inr app, w')
        \<and> run app w' = (Some (ApplicationError m), app', w'') \<longrightarrow>
      main e (Collected a) w = (Exit 1, w''\<lparr>stdout := stdout w'' @ m @ [LF]\<rparr>))
   \<and> (arg_command a = Some ''add'' \<and> length (arg_command_args a) \<noteq> 3 \<longrightarrow>
      Settings_init e a = Inl (ArgumentsError usage_add)
      \<and> main e (Collected a) w = (Exit 1, w\<lparr>stdout := stdout w @ usage_add @ [LF]\<rparr>))
   \<and> (arg_command a = Some ''open'' \<and> length (arg_command_args a) \<noteq> 1 \<longrightarrow>
      Settings_init e a = Inl (ArgumentsError usage_open)
      \<and> main e (Collected a) w = (Exit 1, w\<lparr>stdout := stdout w @ usage_open @ [LF]\<rparr>))
   \<and> (arg_command a = Some ''rm'' \<and> length (arg_command_args a) \<noteq> 1 \<longrightarrow>
      Settings_init e a = Inl (ArgumentsError usage_rm)
      \<and> main e (Collected a) w = (Exit 1, w\<lparr>stdout := stdout w @ usage_rm @ [LF]\<rparr>))
   \<and> (arg_command a = Some c \<and> choices c = None \<longrightarrow> main e (Collected a) w = (Exit 2, w))
   \<and> main e (Parser_exit n out) w = (Exit n, w\<lparr>stdout := stdout w @ out\<rparr>)"
  by (auto simp: main_def print_def Settings_init_def init_from_args_def fill_namespace_def
      choices_def Let_def)

theorem errors_at_top_level_witness:
  "main \<lparr>environ = Map.empty, pw_self = Some ''/home/u'', pw_dir = Map.empty\<rparr>
        (Collected \<lparr>arg_command = Some ''add'', arg_command_args = [''a1''], arg_f = False,
                    arg_storage_path = None\<rparr>)
        \<lparr>files = Map.empty, stdout = [], browser = [], fs_log = []\<rparr>
   = (Exit 1, \<lparr>files = Map.empty, stdout = usage_add @ [LF], browser = [], fs_log = []\<rparr>)
   \<and> main \<lparr>environ = Map.empty, pw_self = Some ''/home/u'', pw_dir = Map.empty\<rparr>
        (Collected \<lparr>arg_command = Some ''rm'', arg_command_args = [''zz''], arg_f = False,
                    arg_storage_path = Some ''/m''\<rparr>)
        \<lparr>files = Map.empty, stdout = [], browser = [], fs_log = []\<rparr>
   = (Exit 1, \<lparr>files = Map.empty, stdout = ''There is no bookmark with code zz'' @ [LF],
               browser = [], fs_log = [Ev_isfile ''/m'']\<rparr>)
   \<and> main \<lparr>environ = Map.empty, pw_self = Some ''/home/u'', pw_dir = Map.empty\<rparr>
        (Parser_exit 2 [])
        \<lparr>files = Map.empty, stdout = [], browser = [], fs_log = []\<rparr>
   = (Exit 2, \<lparr>files = Map.empty, stdout = [], browser = [], fs_log = []\<rparr>)"
proof -
  let ?e = "\<lparr>environ = Map.empty, pw_self = Some ''/home/u'', pw_dir = Map.empty\<rparr>"
  let ?a = "\<lparr>arg_command = Some ''add'', arg_command_args = [''a1''], arg_f = False,
         arg_storage_path = None\<rparr>"
  let ?b = "\<lparr>arg_command = Some ''rm'', arg_command_args = [''zz''], arg_f = False,
         arg_storage_path = Some ''/m''\<rparr>"
  let ?w = "\<lparr>files = Map.empty, stdout = [], browser = [], fs_log = []\<rparr>"
  let ?s = "\<lparr>command = Cmd_rm, command_args = [''zz''], force = False, storage_path = ''/m''\<rparr>"
  let ?app = "\<lparr>settings = ?s, storage = \<lparr>filename = ''/m''\<rparr>, bookmarks = []\<rparr>"
  let ?v = "\<lparr>files = Map.empty, stdout = [], browser = [], fs_log = [Ev_isfile ''/m'']\<rparr>"
  have a: "Settings_init ?e ?a = Inl (ArgumentsError usage_add)"
    using errors_at_top_level [where e = ?e and a = ?a] by simp
  have 1: "main ?e (Collected ?a) ?w = (Exit 1, ?w\<lparr>stdout := stdout ?w @ usage_add @ [LF]\<rparr>)"
    using errors_at_top_level [where e = ?e and a = ?a and m = usage_add and w = ?w] a by simp
  have s: "Settings_init ?e ?b = Inr ?s"
    by (simp add: Settings_init_def init_from_args_def fill_namespace_def choices_def Let_def
        init_from_env_def expanduser_def)
  have i: "BookmarksApp_init ?s ?w = (Inr ?app, ?v)"
    by (simp add: BookmarksApp_init_def load_iter_def log_event_def OrderedDict_def Let_def)
  have r: "run ?app ?v = (Some (ApplicationError ''There is no bookmark with code zz''), ?app, ?v)"
    by (simp add: run_def rm_cmd_def unknown_message_def)
  have 2: "main ?e (Collected ?b) ?w =
      (Exit 1, ?v\<lparr>stdout := stdout ?v @ ''There is no bookmark with code zz'' @ [LF]\<rparr>)"
    using errors_at_top_level
      [where e = ?e and a = ?b and w = ?w and s = ?s and app = ?app and w' = ?v
         and m = "''There is no bookmark with code zz''" and app' = ?app and w'' = ?v] s i r
    by simp
  have 3: "main ?e (Parser_exit 2 []) ?w = (Exit 2, ?w)"
    using errors_at_top_level [where e = ?e and n = 2 and out = "[]" and w = ?w] by simp
  from 1 2 3 show ?thesis by simp
qed

text \<open>
  The claim as stated, that an unrecognised command name ends the process with status 1,
  fails: for the command \<^verbatim>\<open>frobnicate\<close> the status is 2.
\<close>

theorem unknown_command_counterexample:
  "main \<lparr>environ = Map.empty, pw_self = None, pw_dir = Map.empty\<rparr>
        (Collected \<lparr>arg_command = Some ''frobnicate'', arg_command_args = [], arg_f = False,
                    arg_storage_path = None\<rparr>)
        \<lparr>files = Map.empty, stdout = [], browser = [], fs_log = []\<rparr>
   = (Exit 2, \<lparr>files = Map.empty, stdout = [], browser = [], fs_log = []\<rparr>)
   \<and> exit_status (Exit 2) \<noteq> 1"
  by (simp add: main_def Settings_init_def init_from_args_def fill_namespace_def choices_def)

text \<open>
  \<^bold>\<open>C9\<close>. The invariant of the collection, that its keys are distinct and that each key
  is the code of the bookmark stored under it, holds for every collection that
  \<^verbatim>\<open>BookmarksApp.__init__\<close> builds, and each of \<^verbatim>\<open>add\<close>, \<^verbatim>\<open>rm\<close>, \<^verbatim>\<open>list\<close> and
  \<^verbatim>\<open>open\<close> (and so \<^verbatim>\<open>run\<close>) leaves it in place, whether the command returns or raises.
\<close>

theorem collection_invariant:
  "(BookmarksApp_init s w = (Inr app, w') \<longrightarrow> collection_inv (bookmarks app))
   \<and> (collection_inv (bookmarks self) \<longrightarrow>
        collection_inv (bookmarks (fst (snd (add_cmd self w))))
      \<and> collection_inv (bookmarks (fst (snd (rm_cmd self w))))
      \<and> collection_inv (bookmarks (fst (snd (list_cmd self w))))
      \<and> collection_inv (bookmarks (fst (snd (open_cmd self w))))
      \<and> collection_inv (bookmarks (fst (snd (run self w)))))"
  by (auto simp: init_inv add_inv rm_inv list_inv open_inv run_def split: command.splits)

theorem collection_invariant_witness:
  "(case BookmarksApp_init
      \<lparr>command = Cmd_list, command_args = [], force = False, storage_path = ''/m''\<rparr>
      \<lparr>files = [''/m'' \<mapsto> ''a u1 d1'' @ [CR, LF] @ ''b v e'' @ [CR, LF] @ ''a u2 d2'' @ [CR, LF]],
       stdout = [], browser = [], fs_log = []\<rparr>
    of (r, w1) \<Rightarrow> (case r of Inl _ \<Rightarrow> False | Inr app \<Rightarrow> collection_inv (bookmarks app)))
   \<and> collection_inv [(''a'', \<lparr>code = ''a'', url = ''u'', description = ''d''\<rparr>)]
   \<and> collection_inv (bookmarks (fst (snd (run
        \<lparr>settings = \<lparr>command = Cmd_add, command_args = [''b'', ''v'', ''e''], force = False,
                     storage_path = ''/m''\<rparr>,
         storage = \<lparr>filename = ''/m''\<rparr>,
         bookmarks = [(''a'', \<lparr>code = ''a'', url = ''u'', description = ''d''\<rparr>)]\<rparr>
        \<lparr>files = Map.empty, stdout = [], browser = [], fs_log = []\<rparr>))))
   \<and> bookmarks (fst (snd (run
        \<lparr>settings = \<lparr>command = Cmd_add, command_args = [''b'', ''v'', ''e''], force = False,
                     storage_path = ''/m''\<rparr>,
         storage = \<lparr>filename = ''/m''\<rparr>,
         bookmarks = [(''a'', \<lparr>code = ''a'', url = ''u'', description = ''d''\<rparr>)]\<rparr>
        \<lparr>files = Map.empty, stdout = [], browser = [], fs_log = []\<rparr>)))
     = [(''a'', \<lparr>code = ''a'', url = ''u'', description = ''d''\<rparr>),
        (''b'', \<lparr>code = ''b'', url = ''v'', description = ''e''\<rparr>)]"
proof -
  let ?s = "\<lparr>command = Cmd_list, command_args = [], force = False, storage_path = ''/m''\<rparr>"
  let ?content = "''a u1 d1'' @ [CR, LF] @ ''b v e'' @ [CR, LF] @ ''a u2 d2'' @ [CR, LF]"
  let ?w = "\<lparr>files = [''/m'' \<mapsto> ?content], stdout = [], browser = [], fs_log = []\<rparr>"
  let ?self = "\<lparr>settings = \<lparr>command = Cmd_add, command_args = [''b'', ''v'', ''e''],
                      force = False, storage_path = ''/m''\<rparr>,
          storage = \<lparr>filename = ''/m''\<rparr>,
          bookmarks = [(''a'', \<lparr>code = ''a'', url = ''u'', description = ''d''\<rparr>)]\<rparr>"
  let ?v = "\<lparr>files = Map.empty, stdout = [], browser = [], fs_log = []\<rparr>"
  have rd: "csv_reader ?content =
      Inr [[''a'', ''u1'', ''d1''], [''b'', ''v'', ''e''], [''a'', ''u2'', ''d2'']]"
    by (simp add: csv_eval)
  have "load \<lparr>filename = storage_path ?s\<rparr> ?w =
      (Inr [[''a'', ''u1'', ''d1''], [''b'', ''v'', ''e''], [''a'', ''u2'', ''d2'']],
       log_event (Ev_open_read ''/m'') (log_event (Ev_isfile ''/m'') ?w))"
    using rd by (simp add: load_eq Let_def)
  from BookmarksApp_init_loaded [OF this]
  obtain app w1 where i: "BookmarksApp_init ?s ?w = (Inr app, w1)"
    by (simp add: Bookmark_make_def)
  from collection_invariant [where s = ?s and w = ?w and app = app and w' = w1] i
  have init: "case BookmarksApp_init ?s ?w of
      (r, w1) \<Rightarrow> (case r of Inl _ \<Rightarrow> False | Inr app \<Rightarrow> collection_inv (bookmarks app))"
    by simp
  have inv: "collection_inv [(''a'', \<lparr>code = ''a'', url = ''u'', description = ''d''\<rparr>)]"
    by (simp add: collection_inv_def od_keys_def)
  from inv collection_invariant [where self = ?self and w = ?v]
  have kept: "collection_inv (bookmarks (fst (snd (run ?self ?v))))"
    by simp
  have res: "bookmarks (fst (snd (run ?self ?v))) =
      [(''a'', \<lparr>code = ''a'', url = ''u'', description = ''d''\<rparr>),
       (''b'', \<lparr>code = ''b'', url = ''v'', description = ''e''\<rparr>)]"
    by (simp add: run_def add_cmd_def Bookmark_make_def od_contains_def od_keys_def Let_def)
  from init inv kept res show ?thesis by blast
qed

text \<open>
  \<^bold>\<open>C10\<close>. When the file holds records of three fields, some of them with the same
  code, constructing the application does not fail: the keys of the collection are the
  codes of the file in the order in which each code first occurs, every key stands once,
  and the bookmark under a code is the last record of the file with that code.
\<close>

theorem init_duplicate_codes:
  assumes "load \<lparr>filename = storage_path s\<rparr> w = (Inr rows, w1)"
    and "list_all (\<lambda>row. length row = 3) rows"
  shows "\<exists>app. BookmarksApp_init s w = (Inr app, w1)
       \<and> od_keys (bookmarks app) = first_seen (map (\<lambda>row. row ! 0) rows)
       \<and> distinct (od_keys (bookmarks app))
       \<and> (\<forall>c. od_get (bookmarks app) c =
             map_option (\<lambda>row. \<lparr>code = row ! 0, url = row ! 1, description = row ! 2\<rparr>)
               (find (\<lambda>row. row ! 0 = c) (rev rows)))"
proof -
  let ?mk = "\<lambda>row. \<lparr>code = row ! 0, url = row ! 1, description = row ! 2\<rparr>"
  let ?d = "OrderedDict (map (\<lambda>x. (code x, x)) (map ?mk rows))"
  from assms have init: "BookmarksApp_init s w =
      (Inr \<lparr>settings = s, storage = \<lparr>filename = storage_path s\<rparr>, bookmarks = ?d\<rparr>, w1)"
    by (simp add: BookmarksApp_init_loaded make_all_rows)
  have keys: "od_keys ?d = first_seen (map (\<lambda>row. row ! 0) rows)"
    by (simp add: od_keys_OrderedDict o_def)
  have get: "od_get ?d c = map_option ?mk (find (\<lambda>row. row ! 0 = c) (rev rows))" for c
    by (simp add: od_get_OrderedDict rev_map find_mapped o_def option.map_comp)
  from init keys get show ?thesis
    by (simp add: distinct_first_seen)
qed

theorem init_duplicate_codes_witness:
  "(case BookmarksApp_init
      \<lparr>command = Cmd_list, command_args = [], force = False, storage_path = ''/m''\<rparr>
      \<lparr>files = [''/m'' \<mapsto> ''a u1 d1'' @ [CR, LF] @ ''b v e'' @ [CR, LF] @ ''a u2 d2'' @ [CR, LF]],
       stdout = [], browser = [], fs_log = []\<rparr>
    of (r, w1) \<Rightarrow>
      (case r of
         Inl _ \<Rightarrow> False
       | Inr app \<Rightarrow>
           od_keys (bookmarks app) = [''a'', ''b'']
           \<and> od_get (bookmarks app) ''a'' = Some \<lparr>code = ''a'', url = ''u2'', description = ''d2''\<rparr>
           \<and> od_get (bookmarks app) ''b'' = Some \<lparr>code = ''b'', url = ''v'', description = ''e''\<rparr>))"
proof -
  let ?s = "\<lparr>command = Cmd_list, command_args = [], force = False, storage_path = ''/m''\<rparr>"
  let ?content = "''a u1 d1'' @ [CR, LF] @ ''b v e'' @ [CR, LF] @ ''a u2 d2'' @ [CR, LF]"
  let ?w = "\<lparr>files = [''/m'' \<mapsto> ?content], stdout = [], browser = [], fs_log = []\<rparr>"
  let ?rows = "[[''a'', ''u1'', ''d1''], [''b'', ''v'', ''e''], [''a'', ''u2'', ''d2'']]"
  have rd: "csv_reader ?content = Inr ?rows"
    by (simp add: csv_eval)
  have ld: "load \<lparr>filename = storage_path ?s\<rparr> ?w =
      (Inr ?rows, log_event (Ev_open_read ''/m'') (log_event (Ev_isfile ''/m'') ?w))"
    using rd by (simp add: load_eq Let_def)
  have len: "list_all (\<lambda>row. length row = 3) ?rows"
    by simp
  from init_duplicate_codes [OF ld len] obtain app where
    app: "BookmarksApp_init ?s ?w =
            (Inr app, log_event (Ev_open_read ''/m'') (log_event (Ev_isfile ''/m'') ?w))"
    and keys: "od_keys (bookmarks app) = first_seen (map (\<lambda>row. row ! 0) ?rows)"
    and get: "\<And>c. od_get (bookmarks app) c =
             map_option (\<lambda>row. \<lparr>code = row ! 0, url = row ! 1, description = row ! 2\<rparr>)
               (find (\<lambda>row. row ! 0 = c) (rev ?rows))"
    by blast
  from keys have "od_keys (bookmarks app) = [''a'', ''b'']"
    by (simp add: first_seen_def)
  moreover from get [of "''a''"]
  have "od_get (bookmarks app) ''a'' = Some \<lparr>code = ''a'', url = ''u2'', description = ''d2''\<rparr>"
    by simp
  moreover from get [of "''b''"]
  have "od_get (bookmarks app) ''b'' = Some \<lparr>code = ''b'', url = ''v'', description = ''e''\<rparr>"
    by simp
  ultimately show ?thesis
    using app by simp
qed

end
